theory Spec2Isabelle
  imports Complex_Main
begin

section \<open>Option pricing: binomial lattice and Monte Carlo estimator\<close>

text \<open>
  The development embeds \<^verbatim>\<open>binomial_model.py\<close> and \<^verbatim>\<open>monte_carlo.py\<close>.
  Python's \<^verbatim>\<open>float\<close> is idealised as \<^typ>\<open>real\<close>: rounding, overflow, underflow and
  NaN are outside the model, comparisons and arithmetic are exact. Python's \<^verbatim>\<open>int\<close> is
  \<^typ>\<open>int\<close>, \<^verbatim>\<open>str\<close> is \<^typ>\<open>string\<close>. Every \<^verbatim>\<open>raise\<close> of the source, every
  division and every list subscript is a branch of the model that returns an error value.
\<close>

subsection \<open>Errors\<close>

text \<open>
  The source raises \<^verbatim>\<open>ValueError\<close> at three kinds of places; the constructor records
  the place and carries the message: a \<^verbatim>\<open>validate\<close> method, the probability check of
  \<^verbatim>\<open>binomial_option_price\<close>, and the shape check of \<^verbatim>\<open>monte_carlo_price\<close>.
  \<open>SeedError\<close> is the \<^verbatim>\<open>ValueError\<close> that \<^verbatim>\<open>np.random.default_rng\<close> raises when
  it refuses a seed. \<open>ZeroDivisionError\<close> and \<open>IndexError\<close> are what Python raises on
  a float division by zero and on a list subscript out of range.
\<close>

datatype error =
    ValidationError string
  | CalibrationError string
  | PayoffShapeError string
  | SeedError string
  | ZeroDivisionError
  | IndexError

subsection \<open>Subscripts and loops that may raise\<close>

text \<open>A list subscript \<^verbatim>\<open>values[j]\<close> with a non-negative index.\<close>

definition get :: "real list \<Rightarrow> nat \<Rightarrow> error + real" where
  "get values j = (if j < length values then Inr (values ! j) else Inl IndexError)"

text \<open>A comprehension or an append loop whose body may raise: the first error ends it.\<close>

fun map_err :: "('a \<Rightarrow> error + 'b) \<Rightarrow> 'a list \<Rightarrow> error + 'b list" where
  "map_err f [] = Inr []"
| "map_err f (x # xs) =
     (case f x of
        Inl e \<Rightarrow> Inl e
      | Inr y \<Rightarrow> (case map_err f xs of Inl e \<Rightarrow> Inl e | Inr ys \<Rightarrow> Inr (y # ys)))"

subsection \<open>monte\_carlo.py: parameters and validation\<close>

record MonteCarloParameters =
  spot :: real
  rate :: real
  time :: real
  volatility :: real
  paths :: int
  steps :: int
  dividend_yield :: real
  seed :: "int option"

text \<open>\<^verbatim>\<open>MonteCarloParameters.validate\<close>\<close>

definition MonteCarloParameters_validate :: "MonteCarloParameters \<Rightarrow> error option" where
  "MonteCarloParameters_validate self =
     (if spot self \<le> 0 then
        Some (ValidationError ''Spot must be positive'')
      else if volatility self < 0 then
        Some (ValidationError ''Volatility must be non-negative'')
      else if time self \<le> 0 then
        Some (ValidationError ''Time to maturity must be positive'')
      else if paths self \<le> 0 then
        Some (ValidationError ''Number of paths must be positive'')
      else if steps self \<le> 0 then
        Some (ValidationError ''Number of steps must be positive'')
      else None)"

subsection \<open>monte\_carlo.py: path simulation\<close>

text \<open>
  A two-dimensional array is the list of its rows. \<^verbatim>\<open>np.empty\<close> allocates without
  initialising: the contents are whatever the memory holds, here the function \<open>mem\<close>.
\<close>

type_synonym matrix = "real list list"

definition np_empty :: "(nat \<Rightarrow> nat \<Rightarrow> real) \<Rightarrow> nat \<Rightarrow> nat \<Rightarrow> matrix" where
  "np_empty mem r c = map (\<lambda>i. map (\<lambda>j. mem i j) [0..<c]) [0..<r]"

text \<open>The column read \<^verbatim>\<open>m[:, c]\<close> and the column assignment \<^verbatim>\<open>m[:, c] = v\<close>; numpy
  raises when the column does not exist or the shapes differ.\<close>

definition column :: "matrix \<Rightarrow> nat \<Rightarrow> error + real list" where
  "column m c = map_err (\<lambda>row. get row c) m"

definition set_column :: "matrix \<Rightarrow> nat \<Rightarrow> real list \<Rightarrow> error + matrix" where
  "set_column m c v =
     (if (\<forall>i < length m. c < length (m ! i)) \<and> length v = length m
      then Inr (map (\<lambda>i. (m ! i)[c := v ! i]) [0..<length m])
      else Inl IndexError)"

text \<open>
  \<^verbatim>\<open>np.random.default_rng(seed)\<close>. numpy accepts \<^verbatim>\<open>None\<close> (fresh entropy) and every
  integer that is not negative, and raises \<^verbatim>\<open>ValueError\<close> for a negative one. The
  generator it returns is represented by the normal draws it will produce: \<open>draws sd\<close>
  is the stream of the generator made from the seed \<open>sd\<close>, so the same seed gives the
  same draws.
\<close>

definition seed_accepted :: "int option \<Rightarrow> bool" where
  "seed_accepted sd = (case sd of None \<Rightarrow> True | Some n \<Rightarrow> 0 \<le> n)"

definition default_rng ::
  "(int option \<Rightarrow> nat \<Rightarrow> nat \<Rightarrow> real) \<Rightarrow> int option \<Rightarrow> error + (nat \<Rightarrow> nat \<Rightarrow> real)" where
  "default_rng draws sd =
     (if seed_accepted sd then Inr (draws sd)
      else Inl (SeedError ''expected non-negative integer''))"

text \<open>
  \<^verbatim>\<open>for step in range(1, params.steps + 1)\<close>, the steps given as a list. The normal
  draws \<^verbatim>\<open>rng.normal(size=(paths, steps))\<close> are the function \<open>shocks\<close>:
  \<open>shocks i s\<close> is the draw at row \<open>i\<close> and column \<open>s\<close>.
\<close>

fun fill_columns ::
  "real \<Rightarrow> real \<Rightarrow> (nat \<Rightarrow> nat \<Rightarrow> real) \<Rightarrow> nat list \<Rightarrow> matrix \<Rightarrow> error + matrix" where
  "fill_columns drift diffusion shocks [] ps = Inr ps"
| "fill_columns drift diffusion shocks (step # rest) ps =
     (case column ps (step - 1) of
        Inl e \<Rightarrow> Inl e
      | Inr prev \<Rightarrow>
          (case set_column ps step
                  (map (\<lambda>i. prev ! i * exp (drift + diffusion * shocks i (step - 1)))
                     [0..<length prev]) of
             Inl e \<Rightarrow> Inl e
           | Inr ps' \<Rightarrow> fill_columns drift diffusion shocks rest ps'))"

definition simulate_paths ::
  "MonteCarloParameters \<Rightarrow> (int option \<Rightarrow> nat \<Rightarrow> nat \<Rightarrow> real) \<Rightarrow> (nat \<Rightarrow> nat \<Rightarrow> real)
     \<Rightarrow> error + matrix" where
  "simulate_paths params draws mem =
     (case MonteCarloParameters_validate params of
        Some e \<Rightarrow> Inl e
      | None \<Rightarrow>
          (case default_rng draws (seed params) of
             Inl e \<Rightarrow> Inl e
           | Inr rng \<Rightarrow>
               (let dt = time params / real_of_int (steps params);
                    drift = (rate params - dividend_yield params - 0.5 * (volatility params)\<^sup>2) * dt;
                    diffusion = volatility params * sqrt dt;
                    ps = np_empty mem (nat (paths params)) (nat (steps params + 1))
                in case set_column ps 0 (replicate (length ps) (spot params)) of
                     Inl e \<Rightarrow> Inl e
                   | Inr ps0 \<Rightarrow>
                       (let shocks = rng
                        in fill_columns drift diffusion shocks
                             [1..<nat (steps params + 1)] ps0))))"

text \<open>
  The invariant of the simulation loop, used in the proofs only: the matrix has \<open>r\<close> rows
  of \<open>n + 1\<close> entries, column 0 holds \<open>s0\<close>, and the first \<open>c\<close> columns are positive.
\<close>

definition filled :: "real \<Rightarrow> nat \<Rightarrow> nat \<Rightarrow> nat \<Rightarrow> matrix \<Rightarrow> bool" where
  "filled s0 r n c m \<longleftrightarrow>
     length m = r \<and>
     (\<forall>i<r. length (m ! i) = n + 1 \<and> m ! i ! 0 = s0 \<and> (\<forall>j<c. 0 < m ! i ! j))"

subsection \<open>monte\_carlo.py: the estimator\<close>

text \<open>\<^verbatim>\<open>np.mean\<close> of a one-dimensional array.\<close>

definition np_mean :: "real list \<Rightarrow> real" where
  "np_mean xs = sum_list xs / real (length xs)"

text \<open>
  A payoff function has the declared type \<^verbatim>\<open>Callable[[np.ndarray], Iterable[float]]\<close>:
  it maps the path matrix to a finite sequence of scalars. The array built from it has
  the shape \<^verbatim>\<open>(len,)\<close>, which is compared with \<^verbatim>\<open>(params.paths,)\<close>.
\<close>

definition monte_carlo_price ::
  "MonteCarloParameters \<Rightarrow> (matrix \<Rightarrow> real list) \<Rightarrow> (int option \<Rightarrow> nat \<Rightarrow> nat \<Rightarrow> real)
     \<Rightarrow> (nat \<Rightarrow> nat \<Rightarrow> real) \<Rightarrow> error + real" where
  "monte_carlo_price params payoff_fn draws mem =
     (case simulate_paths params draws mem of
        Inl e \<Rightarrow> Inl e
      | Inr ps \<Rightarrow>
          (let payoffs = payoff_fn ps
           in if int (length payoffs) \<noteq> paths params then
                Inl (PayoffShapeError ''Payoff function must return one value per path'')
              else
                (let discount_factor = exp (- rate params * time params)
                 in Inr (discount_factor * np_mean payoffs))))"

text \<open>The parameters of \<^verbatim>\<open>example()\<close> in \<^verbatim>\<open>monte_carlo.py\<close>.\<close>

definition mc_example_params :: MonteCarloParameters where
  "mc_example_params =
     \<lparr>spot = 100, rate = 5 / 100, time = 1, volatility = 2 / 10, paths = 50000,
      steps = 252, dividend_yield = 0, seed = Some 42\<rparr>"

text \<open>A terminal call payoff at strike 100, one value per path (the comment of
  \<^verbatim>\<open>expression_payoff\<close>: \<^verbatim>\<open>np.maximum(path[-1] - 100, 0)\<close>).\<close>

definition terminal_call_payoff :: "matrix \<Rightarrow> real list" where
  "terminal_call_payoff ps = map (\<lambda>path. max (last path - 100) 0) ps"

text \<open>A payoff that returns two values whatever the paths are.\<close>

definition two_values_payoff :: "matrix \<Rightarrow> real list" where
  "two_values_payoff ps = [0, 0]"

text \<open>The example with the seed \<open>-1\<close>, a generator whose draws are all zero, and a
  memory that holds \<open>-1\<close> everywhere before the array is filled.\<close>

definition negative_seed_params :: MonteCarloParameters where
  "negative_seed_params = mc_example_params\<lparr>seed := Some (- 1)\<rparr>"

definition zero_draws :: "int option \<Rightarrow> nat \<Rightarrow> nat \<Rightarrow> real" where
  "zero_draws sd i s = 0"

definition stale_memory :: "nat \<Rightarrow> nat \<Rightarrow> real" where
  "stale_memory i j = - 1"

subsection \<open>binomial\_model.py: parameters and validation\<close>

record BinomialParameters =
  spot :: real
  strike :: real
  rate :: real
  time :: real
  volatility :: real
  steps :: int
  dividend_yield :: real
  option_type :: string
  exercise :: string

text \<open>\<^verbatim>\<open>BinomialParameters.validate\<close>: the checks in the order of the source; \<open>None\<close>
  is the normal return.\<close>

definition BinomialParameters_validate :: "BinomialParameters \<Rightarrow> error option" where
  "BinomialParameters_validate self =
     (if steps self \<le> 0 then
        Some (ValidationError ''Number of steps must be positive'')
      else if spot self \<le> 0 \<or> strike self \<le> 0 then
        Some (ValidationError ''Spot and strike must be positive'')
      else if volatility self < 0 then
        Some (ValidationError ''Volatility must be non-negative'')
      else if time self \<le> 0 then
        Some (ValidationError ''Time to maturity must be positive'')
      else if option_type self \<notin> {''call'', ''put''} then
        Some (ValidationError (''option_type must be '' @ [CHR 0x27] @ ''call'' @ [CHR 0x27]
                @ '' or '' @ [CHR 0x27] @ ''put'' @ [CHR 0x27]))
      else if exercise self \<notin> {''european'', ''american''} then
        Some (ValidationError (''exercise must be '' @ [CHR 0x27] @ ''european'' @ [CHR 0x27]
                @ '' or '' @ [CHR 0x27] @ ''american'' @ [CHR 0x27]))
      else None)"

text \<open>\<^verbatim>\<open>_payoff\<close>: the call payoff for \<^verbatim>\<open>"call"\<close>, the put payoff for every other string.\<close>

definition payoff :: "string \<Rightarrow> real \<Rightarrow> real \<Rightarrow> real" where
  "payoff opt_type =
     (if opt_type = ''call'' then (\<lambda>price strk. max (price - strk) 0)
      else (\<lambda>price strk. max (strk - price) 0))"

subsection \<open>binomial\_model.py: the lattice\<close>

text \<open>
  Lines 78 to 87 of \<^verbatim>\<open>binomial_option_price\<close>, one definition per assignment. The
  divisions \<^verbatim>\<open>time / steps\<close> and \<^verbatim>\<open>1 / up\<close> cannot fail after validation (the step
  count is positive and \<open>exp\<close> is positive); the division by \<^verbatim>\<open>up - down\<close> can, and is
  a branch of \<open>lattice_prob\<close>.
\<close>

definition lattice_dt :: "BinomialParameters \<Rightarrow> real" where
  "lattice_dt params = time params / real_of_int (steps params)"

definition lattice_up :: "BinomialParameters \<Rightarrow> real" where
  "lattice_up params = exp (volatility params * sqrt (lattice_dt params))"

definition lattice_down :: "BinomialParameters \<Rightarrow> real" where
  "lattice_down params = 1 / lattice_up params"

definition lattice_growth :: "BinomialParameters \<Rightarrow> real" where
  "lattice_growth params = exp ((rate params - dividend_yield params) * lattice_dt params)"

definition lattice_prob :: "BinomialParameters \<Rightarrow> error + real" where
  "lattice_prob params =
     (if lattice_up params - lattice_down params = 0 then Inl ZeroDivisionError
      else Inr ((lattice_growth params - lattice_down params)
                  / (lattice_up params - lattice_down params)))"

definition lattice_disc :: "BinomialParameters \<Rightarrow> real" where
  "lattice_disc params = exp (- rate params * lattice_dt params)"

text \<open>\<^verbatim>\<open>disc * (prob * values[j + 1] + (1 - prob) * values[j])\<close>\<close>

definition continuation :: "real \<Rightarrow> real \<Rightarrow> real list \<Rightarrow> nat \<Rightarrow> error + real" where
  "continuation disc prob values j =
     (case get values (j + 1) of
        Inl e \<Rightarrow> Inl e
      | Inr hi \<Rightarrow> (case get values j of
                   Inl e \<Rightarrow> Inl e
                 | Inr lo \<Rightarrow> Inr (disc * (prob * hi + (1 - prob) * lo))))"

text \<open>One round of the European loop: the comprehension over \<^verbatim>\<open>range(len(values) - 1)\<close>.\<close>

definition european_round :: "real \<Rightarrow> real \<Rightarrow> real list \<Rightarrow> error + real list" where
  "european_round disc prob values =
     map_err (continuation disc prob values) [0..<length values - 1]"

text \<open>\<^verbatim>\<open>for _ in range(params.steps)\<close>\<close>

fun european_loop :: "nat \<Rightarrow> real \<Rightarrow> real \<Rightarrow> real list \<Rightarrow> error + real list" where
  "european_loop 0 disc prob values = Inr values"
| "european_loop (Suc n) disc prob values =
     (case european_round disc prob values of
        Inl e \<Rightarrow> Inl e
      | Inr next_values \<Rightarrow> european_loop n disc prob next_values)"

text \<open>The body of the inner American loop at node \<open>j\<close> of level \<open>step\<close>.\<close>

definition american_node ::
  "BinomialParameters \<Rightarrow> real \<Rightarrow> real \<Rightarrow> real \<Rightarrow> real \<Rightarrow> nat \<Rightarrow> real list \<Rightarrow> nat
     \<Rightarrow> error + real" where
  "american_node params up down disc prob step values j =
     (case continuation disc prob values j of
        Inl e \<Rightarrow> Inl e
      | Inr cont \<Rightarrow>
          (let node_price = spot params * up ^ j * down ^ (step - j);
               exercise_val = payoff (option_type params) node_price (strike params)
           in Inr (max cont exercise_val)))"

text \<open>\<^verbatim>\<open>for j in range(step + 1)\<close>, appending to \<^verbatim>\<open>next_values\<close>.\<close>

definition american_round ::
  "BinomialParameters \<Rightarrow> real \<Rightarrow> real \<Rightarrow> real \<Rightarrow> real \<Rightarrow> nat \<Rightarrow> real list
     \<Rightarrow> error + real list" where
  "american_round params up down disc prob step values =
     map_err (american_node params up down disc prob step values) [0..<step + 1]"

text \<open>\<^verbatim>\<open>for step in range(params.steps - 1, -1, -1)\<close>: the levels are given as a list.\<close>

fun american_loop ::
  "BinomialParameters \<Rightarrow> real \<Rightarrow> real \<Rightarrow> real \<Rightarrow> real \<Rightarrow> nat list \<Rightarrow> real list
     \<Rightarrow> error + real list" where
  "american_loop params up down disc prob [] values = Inr values"
| "american_loop params up down disc prob (step # rest) values =
     (case american_round params up down disc prob step values of
        Inl e \<Rightarrow> Inl e
      | Inr next_values \<Rightarrow> american_loop params up down disc prob rest next_values)"

text \<open>The terminal prices and payoffs, lines 91 and 92.\<close>

definition terminal_prices :: "BinomialParameters \<Rightarrow> real \<Rightarrow> real \<Rightarrow> nat \<Rightarrow> real list" where
  "terminal_prices params up down n =
     map (\<lambda>j. spot params * up ^ j * down ^ (n - j)) [0..<n + 1]"

definition terminal_values :: "BinomialParameters \<Rightarrow> real \<Rightarrow> real \<Rightarrow> nat \<Rightarrow> real list" where
  "terminal_values params up down n =
     map (\<lambda>price. payoff (option_type params) price (strike params))
       (terminal_prices params up down n)"

definition binomial_option_price :: "BinomialParameters \<Rightarrow> error + real" where
  "binomial_option_price params =
     (case BinomialParameters_validate params of
        Some e \<Rightarrow> Inl e
      | None \<Rightarrow>
          (case lattice_prob params of
             Inl e \<Rightarrow> Inl e
           | Inr prob \<Rightarrow>
               if \<not> (0 \<le> prob \<and> prob \<le> 1) then
                 Inl (CalibrationError
                   ''Risk-neutral probability outside [0, 1]; adjust inputs or steps'')
               else
                 (let up = lattice_up params;
                      down = lattice_down params;
                      disc = lattice_disc params;
                      n = nat (steps params);
                      values = terminal_values params up down n
                  in if exercise params = ''european'' then
                       (case european_loop n disc prob values of
                          Inl e \<Rightarrow> Inl e
                        | Inr vs \<Rightarrow> get vs 0)
                     else
                       (case american_loop params up down disc prob (rev [0..<n]) values of
                          Inl e \<Rightarrow> Inl e
                        | Inr vs \<Rightarrow> get vs 0))))"

text \<open>
  The hypothesis shared by the pricing claims: the parameters pass validation, the
  risk-neutral probability is derived (the division succeeds) and lies in \<open>[0, 1]\<close>.
\<close>

definition calibrated :: "BinomialParameters \<Rightarrow> bool" where
  "calibrated params =
     (BinomialParameters_validate params = None \<and>
      (case lattice_prob params of Inl e \<Rightarrow> False | Inr prob \<Rightarrow> 0 \<le> prob \<and> prob \<le> 1))"

subsection \<open>The rounds as plain lists\<close>

text \<open>
  What one round computes when no subscript fails; the lemmas \<open>european_round_ok\<close> and
  \<open>american_round_ok\<close> show that the checked rounds return exactly these lists.
\<close>

definition mix :: "real \<Rightarrow> real \<Rightarrow> real list \<Rightarrow> nat \<Rightarrow> real" where
  "mix disc prob values j = disc * (prob * values ! Suc j + (1 - prob) * values ! j)"

definition node_payoff :: "BinomialParameters \<Rightarrow> real \<Rightarrow> real \<Rightarrow> nat \<Rightarrow> nat \<Rightarrow> real" where
  "node_payoff params up down step j =
     payoff (option_type params) (spot params * up ^ j * down ^ (step - j)) (strike params)"

definition european_next :: "real \<Rightarrow> real \<Rightarrow> real list \<Rightarrow> real list" where
  "european_next disc prob values = map (mix disc prob values) [0..<length values - 1]"

definition american_next ::
  "BinomialParameters \<Rightarrow> real \<Rightarrow> real \<Rightarrow> real \<Rightarrow> real \<Rightarrow> nat \<Rightarrow> real list \<Rightarrow> real list" where
  "american_next params up down disc prob step values =
     map (\<lambda>j. max (mix disc prob values j) (node_payoff params up down step j)) [0..<step + 1]"

text \<open>The parameters of \<^verbatim>\<open>example()\<close> in \<^verbatim>\<open>binomial_model.py\<close>.\<close>

definition example_params :: BinomialParameters where
  "example_params =
     \<lparr>spot = 100, strike = 100, rate = 5 / 100, time = 1, volatility = 2 / 10, steps = 200,
      dividend_yield = 0, option_type = ''call'', exercise = ''european''\<rparr>"

text \<open>A one-step call deep in the money under a negative rate.\<close>

definition negative_rate_params :: BinomialParameters where
  "negative_rate_params =
     \<lparr>spot = 100, strike = 1, rate = - (1 / 2), time = 1, volatility = 1, steps = 1,
      dividend_yield = 0, option_type = ''call'', exercise = ''european''\<rparr>"

section \<open>Properties\<close>

subsection \<open>The checked loops never raise\<close>

lemma get_ok: "j < length values \<Longrightarrow> get values j = Inr (values ! j)"
  by (simp add: get_def)

lemma map_err_ok:
  "(\<And>x. x \<in> set xs \<Longrightarrow> f x = Inr (g x)) \<Longrightarrow> map_err f xs = Inr (map g xs)"
  by (induction xs) auto

lemma continuation_ok:
  "Suc j < length values \<Longrightarrow>
   continuation disc prob values j = Inr (disc * (prob * values ! Suc j + (1 - prob) * values ! j))"
  by (simp add: continuation_def get_ok)

lemma european_round_ok:
  "european_round disc prob values = Inr (european_next disc prob values)"
  unfolding european_round_def european_next_def
  by (rule map_err_ok) (auto simp: continuation_ok mix_def)

lemma american_round_ok:
  "length values = step + 2 \<Longrightarrow>
   american_round params up down disc prob step values =
     Inr (american_next params up down disc prob step values)"
  unfolding american_round_def american_next_def
  by (rule map_err_ok) (auto simp: american_node_def continuation_ok mix_def node_payoff_def)

lemma validate_None_iff:
  "BinomialParameters_validate p = None \<longleftrightarrow>
     0 < steps p \<and> 0 < spot p \<and> 0 < strike p \<and> 0 \<le> volatility p \<and> 0 < time p \<and>
     option_type p \<in> {''call'', ''put''} \<and> exercise p \<in> {''european'', ''american''}"
  by (auto simp: BinomialParameters_validate_def)

lemma validate_Some_kind:
  "BinomialParameters_validate p = Some e \<Longrightarrow> \<exists>msg. e = ValidationError msg"
  by (auto simp: BinomialParameters_validate_def split: if_splits)


lemma lattice_dt_pos: "BinomialParameters_validate p = None \<Longrightarrow> 0 < lattice_dt p"
  by (simp add: validate_None_iff lattice_dt_def)

lemma lattice_up_gt_down:
  assumes "BinomialParameters_validate p = None" "0 < volatility p"
  shows "lattice_down p < 1" "1 < lattice_up p"
proof -
  have "0 < volatility p * sqrt (lattice_dt p)"
    using assms lattice_dt_pos[OF assms(1)] by simp
  then show "1 < lattice_up p" by (simp add: lattice_up_def)
  then show "lattice_down p < 1" by (simp add: lattice_down_def)
qed

lemma sq_bound:
  fixes a dt s :: real
  assumes dt: "0 < dt" and c: "a\<^sup>2 * dt \<le> s\<^sup>2"
  shows "(a * dt)\<^sup>2 \<le> (s * sqrt dt)\<^sup>2"
proof -
  have "(a * dt)\<^sup>2 = (a\<^sup>2 * dt) * dt" by (simp add: power2_eq_square)
  also have "\<dots> \<le> s\<^sup>2 * dt" using c dt by (rule_tac mult_right_mono) auto
  also have "\<dots> = (s * sqrt dt)\<^sup>2" using dt by (simp add: power_mult_distrib)
  finally show ?thesis .
qed

lemma abs_sqrt_bound:
  fixes a dt s :: real
  assumes dt: "0 < dt" and s: "0 < s" and c: "a\<^sup>2 * dt \<le> s\<^sup>2"
  shows "\<bar>a * dt\<bar> \<le> s * sqrt dt"
proof -
  have "0 \<le> s * sqrt dt" using dt s by simp
  then show ?thesis using sq_bound[OF dt c] by (metis abs_le_square_iff abs_of_nonneg)
qed


lemma calibratedI:
  assumes v: "BinomialParameters_validate p = None" and s: "0 < volatility p"
    and c: "(rate p - dividend_yield p)\<^sup>2 * lattice_dt p \<le> (volatility p)\<^sup>2"
  shows "calibrated p"
proof -
  have dt: "0 < lattice_dt p" by (rule lattice_dt_pos[OF v])
  have ud: "lattice_down p < 1" "1 < lattice_up p" using lattice_up_gt_down[OF v s] by auto
  have b: "\<bar>(rate p - dividend_yield p) * lattice_dt p\<bar> \<le> volatility p * sqrt (lattice_dt p)"
    by (rule abs_sqrt_bound[OF dt s c])
  have "(rate p - dividend_yield p) * lattice_dt p \<le> volatility p * sqrt (lattice_dt p)"
    using b by linarith
  then have g1: "lattice_growth p \<le> lattice_up p"
    unfolding lattice_growth_def lattice_up_def by (simp only: exp_le_cancel_iff)
  have "- (volatility p * sqrt (lattice_dt p)) \<le> (rate p - dividend_yield p) * lattice_dt p"
    using b by linarith
  then have "exp (- (volatility p * sqrt (lattice_dt p))) \<le> exp ((rate p - dividend_yield p) * lattice_dt p)"
    by (simp only: exp_le_cancel_iff)
  then have g2: "lattice_down p \<le> lattice_growth p"
    unfolding lattice_growth_def lattice_up_def lattice_down_def
    by (simp only: exp_minus inverse_eq_divide)
  have ne: "0 < lattice_up p - lattice_down p" using ud by linarith
  have n0: "lattice_up p - lattice_down p \<noteq> 0" using ne by linarith
  have q0: "0 \<le> (lattice_growth p - lattice_down p) / (lattice_up p - lattice_down p)"
    using g2 ne by (intro divide_nonneg_pos) linarith+
  have q1: "(lattice_growth p - lattice_down p) / (lattice_up p - lattice_down p) \<le> 1"
    using g1 ne by (simp add: divide_le_eq)
  show ?thesis using v q0 q1 n0
    by (simp add: calibrated_def lattice_prob_def)
qed

lemma len1: "length xs = Suc 0 \<Longrightarrow> xs = [xs ! 0]"
  by (cases xs) auto

lemma rev_upt_Suc: "rev [0..<Suc k] = k # rev [0..<k]"
  by simp

lemma length_european_next: "length (european_next d p vs) = length vs - 1"
  by (simp add: european_next_def)

lemma nth_european_next: "j < length vs - 1 \<Longrightarrow> european_next d p vs ! j = mix d p vs j"
  by (simp add: european_next_def)

lemma length_american_next: "length (american_next P u dn d p k vs) = k + 1"
  by (simp add: american_next_def)

lemma nth_american_next:
  "j \<le> k \<Longrightarrow> american_next P u dn d p k vs ! j = max (mix d p vs j) (node_payoff P u dn k j)"
  unfolding american_next_def by (simp del: upt_Suc)

lemma european_loop_Suc:
  "european_loop (Suc k) d p vs = european_loop k d p (european_next d p vs)"
  by (simp add: european_round_ok)

lemma american_loop_Suc:
  "length vs = k + 2 \<Longrightarrow>
   american_loop P u dn d p (rev [0..<Suc k]) vs =
     american_loop P u dn d p (rev [0..<k]) (american_next P u dn d p k vs)"
  by (simp only: rev_upt_Suc american_loop.simps american_round_ok sum.case)

lemma european_loop_ok:
  "\<exists>r. european_loop k d p vs = Inr r \<and> length r = length vs - k"
proof (induction k arbitrary: vs)
  case 0
  show ?case by simp
next
  case (Suc k)
  from Suc.IH[of "european_next d p vs"] show ?case
    by (simp add: european_round_ok length_european_next)
qed

lemma american_loop_ok:
  "length vs = k + 1 \<Longrightarrow> \<exists>a. american_loop P u dn d p (rev [0..<k]) vs = Inr [a]"
proof (induction k arbitrary: vs)
  case 0
  then have "vs = [vs ! 0]" by (simp add: len1)
  then show ?case by (metis american_loop.simps(1) rev.simps(1) upt_0)
next
  case (Suc k)
  have "length vs = k + 2" using Suc.prems by simp
  then have "american_loop P u dn d p (rev [0..<Suc k]) vs =
      american_loop P u dn d p (rev [0..<k]) (american_next P u dn d p k vs)"
    by (rule american_loop_Suc)
  with Suc.IH[OF length_american_next] show ?case by simp
qed

lemma terminal_values_length: "length (terminal_values P u dn n) = n + 1"
  by (simp add: terminal_values_def terminal_prices_def)

lemma price_european:
  assumes "BinomialParameters_validate p = None" "lattice_prob p = Inr q" "0 \<le> q" "q \<le> 1"
    "exercise p = ''european''"
    "european_loop (nat (steps p)) (lattice_disc p) q
       (terminal_values p (lattice_up p) (lattice_down p) (nat (steps p))) = Inr [e]"
  shows "binomial_option_price p = Inr e"
  using assms by (simp add: binomial_option_price_def get_def)

lemma price_american:
  assumes "BinomialParameters_validate p = None" "lattice_prob p = Inr q" "0 \<le> q" "q \<le> 1"
    "exercise p \<noteq> ''european''"
    "american_loop p (lattice_up p) (lattice_down p) (lattice_disc p) q (rev [0..<nat (steps p)])
       (terminal_values p (lattice_up p) (lattice_down p) (nat (steps p))) = Inr [a]"
  shows "binomial_option_price p = Inr a"
  using assms by (simp add: binomial_option_price_def get_def)

lemma price_returns:
  assumes v: "BinomialParameters_validate p = None" and q: "lattice_prob p = Inr q" "0 \<le> q" "q \<le> 1"
  shows "\<exists>x. binomial_option_price p = Inr x"
proof (cases "exercise p = ''european''")
  case True
  obtain r where r: "european_loop (nat (steps p)) (lattice_disc p) q
       (terminal_values p (lattice_up p) (lattice_down p) (nat (steps p))) = Inr r"
     "length r = length (terminal_values p (lattice_up p) (lattice_down p) (nat (steps p))) - nat (steps p)"
    using european_loop_ok by blast
  then have "r = [r ! 0]" by (simp add: terminal_values_length len1)
  with r(1) price_european[OF v q True, of "r ! 0"] show ?thesis by auto
next
  case False
  obtain a where "american_loop p (lattice_up p) (lattice_down p) (lattice_disc p) q (rev [0..<nat (steps p)])
       (terminal_values p (lattice_up p) (lattice_down p) (nat (steps p))) = Inr [a]"
    using american_loop_ok[OF terminal_values_length] by blast
  with price_american[OF v q False] show ?thesis by blast
qed

lemma price_validation_iff:
  "(\<exists>msg. binomial_option_price p = Inl (ValidationError msg)) \<longleftrightarrow>
     BinomialParameters_validate p \<noteq> None"
proof (cases "BinomialParameters_validate p")
  case (Some e)
  then show ?thesis using validate_Some_kind[OF Some] by (auto simp: binomial_option_price_def)
next
  case None
  show ?thesis
  proof (cases "lattice_prob p")
    case (Inl e)
    then have "e = ZeroDivisionError" by (auto simp: lattice_prob_def split: if_splits)
    with None Inl show ?thesis by (simp add: binomial_option_price_def)
  next
    case (Inr q)
    show ?thesis
    proof (cases "0 \<le> q \<and> q \<le> 1")
      case True
      then obtain x where "binomial_option_price p = Inr x" using price_returns[OF None Inr] by blast
      with None show ?thesis by simp
    next
      case False
      with None Inr show ?thesis by (auto simp add: binomial_option_price_def)
    qed
  qed
qed

subsection \<open>Validation errors of the lattice engine\<close>

text \<open>
  Claim C3. \<^verbatim>\<open>binomial_option_price\<close> raises a validation error if and only if
  \<open>steps \<le> 0\<close>, \<open>spot \<le> 0\<close>, \<open>strike \<le> 0\<close>, \<open>volatility < 0\<close>, \<open>time \<le> 0\<close>, the option
  kind is not \<^verbatim>\<open>"call"\<close> or \<^verbatim>\<open>"put"\<close>, or the exercise style is not \<^verbatim>\<open>"european"\<close> or
  \<^verbatim>\<open>"american"\<close>; and the error is the one \<^verbatim>\<open>validate\<close> raises, before the lattice is
  computed.
\<close>

theorem validation_error_iff:
  "((\<exists>msg. binomial_option_price p = Inl (ValidationError msg)) \<longleftrightarrow>
      (steps p \<le> 0 \<or> spot p \<le> 0 \<or> strike p \<le> 0 \<or> volatility p < 0 \<or> time p \<le> 0 \<or>
       option_type p \<notin> {''call'', ''put''} \<or> exercise p \<notin> {''european'', ''american''}))
   \<and> (\<forall>e. BinomialParameters_validate p = Some e \<longrightarrow> binomial_option_price p = Inl e)"
proof -
  have "BinomialParameters_validate p \<noteq> None \<longleftrightarrow>
      (steps p \<le> 0 \<or> spot p \<le> 0 \<or> strike p \<le> 0 \<or> volatility p < 0 \<or> time p \<le> 0 \<or>
       option_type p \<notin> {''call'', ''put''} \<or> exercise p \<notin> {''european'', ''american''})"
    unfolding validate_None_iff by (simp only: de_Morgan_conj not_less not_le)
  moreover have "\<forall>e. BinomialParameters_validate p = Some e \<longrightarrow> binomial_option_price p = Inl e"
    by (simp add: binomial_option_price_def)
  ultimately show ?thesis using price_validation_iff[of p] by (simp only:)
qed

theorem validation_error_iff_witness:
  "steps (example_params\<lparr>steps := 0\<rparr>) \<le> 0
   \<and> binomial_option_price (example_params\<lparr>steps := 0\<rparr>)
       = Inl (ValidationError ''Number of steps must be positive'')
   \<and> \<not> (\<exists>msg. binomial_option_price example_params = Inl (ValidationError msg))"
proof -
  have a: "BinomialParameters_validate (example_params\<lparr>steps := 0\<rparr>)
            = Some (ValidationError ''Number of steps must be positive'')"
    by (simp add: BinomialParameters_validate_def)
  have b: "\<not> (steps example_params \<le> 0 \<or> spot example_params \<le> 0 \<or> strike example_params \<le> 0
       \<or> volatility example_params < 0 \<or> time example_params \<le> 0
       \<or> option_type example_params \<notin> {''call'', ''put''}
       \<or> exercise example_params \<notin> {''european'', ''american''})"
    by (simp add: example_params_def)
  show ?thesis
    using validation_error_iff[of "example_params\<lparr>steps := 0\<rparr>"]
      validation_error_iff[of example_params] a b
    by simp
qed

subsection \<open>Zero volatility\<close>

text \<open>
  Claim C2 says that validated parameters lead to a price, a validation error or a
  calibration error, and to no other failure. The parameters of \<^verbatim>\<open>example()\<close> with
  \<^verbatim>\<open>volatility = 0\<close> pass validation; then \<^verbatim>\<open>up = down = 1\<close> and the division by
  \<^verbatim>\<open>up - down\<close> raises \<^verbatim>\<open>ZeroDivisionError\<close>.
\<close>

theorem zero_volatility_division_error:
  "BinomialParameters_validate (example_params\<lparr>volatility := 0\<rparr>) = None
   \<and> binomial_option_price (example_params\<lparr>volatility := 0\<rparr>) = Inl ZeroDivisionError"
  by (simp add: binomial_option_price_def BinomialParameters_validate_def example_params_def
      lattice_prob_def lattice_up_def lattice_down_def)

text \<open>
  With a positive volatility the division succeeds, and validated parameters lead to a
  price or to the calibration error: zero volatility is the only gap.
\<close>

lemma positive_volatility_outcomes:
  assumes v: "BinomialParameters_validate p = None" and s: "0 < volatility p"
  shows "(\<exists>x. binomial_option_price p = Inr x) \<or>
         (\<exists>msg. binomial_option_price p = Inl (CalibrationError msg))"
proof -
  have "lattice_down p < 1" "1 < lattice_up p" using lattice_up_gt_down[OF v s] by auto
  then have "lattice_up p - lattice_down p \<noteq> 0" by linarith
  then obtain q where q: "lattice_prob p = Inr q" by (simp add: lattice_prob_def)
  show ?thesis
  proof (cases "0 \<le> q \<and> q \<le> 1")
    case True
    then show ?thesis using price_returns[OF v q] by blast
  next
    case False
    then show ?thesis using v q by (auto simp: binomial_option_price_def)
  qed
qed

subsection \<open>Parameters that differ in the exercise style or the option kind\<close>

lemma example_params_calibrated: "calibrated example_params"
  by (rule calibratedI) (simp_all add: BinomialParameters_validate_def example_params_def lattice_dt_def power2_eq_square)

lemma lattice_exercise_update:
  "lattice_up (p\<lparr>exercise := x\<rparr>) = lattice_up p"
  "lattice_down (p\<lparr>exercise := x\<rparr>) = lattice_down p"
  "lattice_disc (p\<lparr>exercise := x\<rparr>) = lattice_disc p"
  "lattice_growth (p\<lparr>exercise := x\<rparr>) = lattice_growth p"
  "lattice_prob (p\<lparr>exercise := x\<rparr>) = lattice_prob p"
  by (simp_all add: lattice_prob_def lattice_up_def lattice_down_def lattice_growth_def
      lattice_disc_def lattice_dt_def)

lemma lattice_option_type_update:
  "lattice_up (p\<lparr>option_type := x\<rparr>) = lattice_up p"
  "lattice_down (p\<lparr>option_type := x\<rparr>) = lattice_down p"
  "lattice_disc (p\<lparr>option_type := x\<rparr>) = lattice_disc p"
  "lattice_growth (p\<lparr>option_type := x\<rparr>) = lattice_growth p"
  "lattice_prob (p\<lparr>option_type := x\<rparr>) = lattice_prob p"
  by (simp_all add: lattice_prob_def lattice_up_def lattice_down_def lattice_growth_def
      lattice_disc_def lattice_dt_def)

lemma validate_exercise_update:
  "BinomialParameters_validate p = None \<Longrightarrow> x \<in> {''european'', ''american''} \<Longrightarrow>
   BinomialParameters_validate (p\<lparr>exercise := x\<rparr>) = None"
  unfolding validate_None_iff by simp

lemma validate_option_type_update:
  "BinomialParameters_validate p = None \<Longrightarrow> x \<in> {''call'', ''put''} \<Longrightarrow>
   BinomialParameters_validate (p\<lparr>option_type := x\<rparr>) = None"
  unfolding validate_None_iff by simp

lemma calibrated_exercise:
  "calibrated p \<Longrightarrow> x \<in> {''european'', ''american''} \<Longrightarrow> calibrated (p\<lparr>exercise := x\<rparr>)"
  unfolding calibrated_def by (simp only: lattice_exercise_update validate_exercise_update simp_thms)

lemma calibrated_option_type:
  "calibrated p \<Longrightarrow> x \<in> {''call'', ''put''} \<Longrightarrow> calibrated (p\<lparr>option_type := x\<rparr>)"
  unfolding calibrated_def by (simp only: lattice_option_type_update validate_option_type_update simp_thms)

subsection \<open>Backward induction, level by level\<close>

lemma payoff_nonneg: "0 \<le> payoff t x k"
  by (simp add: payoff_def)

lemma mix_mono:
  assumes "0 \<le> d" "0 \<le> p" "p \<le> 1" "vs ! j \<le> ws ! j" "vs ! Suc j \<le> ws ! Suc j"
  shows "mix d p vs j \<le> mix d p ws j"
proof -
  have "p * vs ! Suc j \<le> p * ws ! Suc j" using assms by (simp add: mult_left_mono)
  moreover have "(1 - p) * vs ! j \<le> (1 - p) * ws ! j" using assms by (simp add: mult_left_mono)
  ultimately have "p * vs ! Suc j + (1 - p) * vs ! j \<le> p * ws ! Suc j + (1 - p) * ws ! j"
    by (rule add_mono)
  then show ?thesis unfolding mix_def using assms(1) by (rule mult_left_mono)
qed

lemma mix_nonneg:
  assumes "0 \<le> d" "0 \<le> p" "p \<le> 1" "0 \<le> vs ! j" "0 \<le> vs ! Suc j"
  shows "0 \<le> mix d p vs j"
  unfolding mix_def using assms by simp

lemma european_loop_nonneg:
  assumes "0 \<le> d" "0 \<le> p" "p \<le> 1"
  shows "length vs = k + 1 \<Longrightarrow> (\<forall>j\<le>k. 0 \<le> vs ! j) \<Longrightarrow>
         \<exists>e. european_loop k d p vs = Inr [e] \<and> 0 \<le> e"
proof (induction k arbitrary: vs)
  case 0
  then have "vs = [vs ! 0]" by (simp add: len1)
  moreover have "0 \<le> vs ! 0" using 0 by simp
  ultimately show ?case by (metis european_loop.simps(1))
next
  case (Suc k)
  let ?vs = "european_next d p vs"
  have l: "length ?vs = k + 1" using Suc.prems by (simp add: length_european_next)
  have "\<forall>j\<le>k. 0 \<le> ?vs ! j"
  proof (intro allI impI)
    fix j assume j: "j \<le> k"
    then have "?vs ! j = mix d p vs j" using Suc.prems by (simp add: nth_european_next)
    moreover have "0 \<le> mix d p vs j" using assms Suc.prems j by (intro mix_nonneg) auto
    ultimately show "0 \<le> ?vs ! j" by simp
  qed
  from Suc.IH[OF l this] show ?case by (simp only: european_loop_Suc)
qed

lemma american_ge_european_loop:
  assumes "0 \<le> d" "0 \<le> p" "p \<le> 1"
  shows "length va = k + 1 \<Longrightarrow> length ve = k + 1 \<Longrightarrow> (\<forall>j\<le>k. ve ! j \<le> va ! j) \<Longrightarrow>
         \<exists>a e. american_loop P u dn d p (rev [0..<k]) va = Inr [a] \<and>
               european_loop k d p ve = Inr [e] \<and> e \<le> a"
proof (induction k arbitrary: va ve)
  case 0
  then have "va = [va ! 0]" "ve = [ve ! 0]" "ve ! 0 \<le> va ! 0" by (simp_all add: len1)
  then show ?case
    by (metis american_loop.simps(1) european_loop.simps(1) rev.simps(1) upt_0)
next
  case (Suc k)
  let ?va = "american_next P u dn d p k va" and ?ve = "european_next d p ve"
  have la: "length ?va = k + 1" by (rule length_american_next)
  have le: "length ?ve = k + 1" using Suc.prems by (simp add: length_european_next)
  have "\<forall>j\<le>k. ?ve ! j \<le> ?va ! j"
  proof (intro allI impI)
    fix j assume j: "j \<le> k"
    have "?ve ! j = mix d p ve j" using Suc.prems j by (simp add: nth_european_next)
    moreover have "mix d p ve j \<le> mix d p va j" using assms Suc.prems j by (intro mix_mono) auto
    moreover have "?va ! j = max (mix d p va j) (node_payoff P u dn k j)"
      using j by (rule nth_american_next)
    ultimately show "?ve ! j \<le> ?va ! j" by simp
  qed
  from Suc.IH[OF la le this] obtain a e where
    "american_loop P u dn d p (rev [0..<k]) ?va = Inr [a]" "european_loop k d p ?ve = Inr [e]" "e \<le> a"
    by blast
  moreover have "length va = k + 2" using Suc.prems by simp
  ultimately show ?case by (simp only: european_loop_Suc american_loop_Suc) blast
qed

lemma american_loop_ge_exercise:
  "length vs = k + 2 \<Longrightarrow>
   \<exists>a. american_loop P u dn d p (rev [0..<Suc k]) vs = Inr [a] \<and> node_payoff P u dn 0 0 \<le> a"
proof (induction k arbitrary: vs)
  case 0
  then have "length vs = 0 + 2" by simp
  then have "american_loop P u dn d p (rev [0..<Suc 0]) vs =
      american_loop P u dn d p (rev [0..<0]) (american_next P u dn d p 0 vs)"
    by (rule american_loop_Suc)
  moreover have "american_loop P u dn d p (rev [0..<0]) (american_next P u dn d p 0 vs) =
      Inr (american_next P u dn d p 0 vs)" by simp
  moreover have "american_next P u dn d p 0 vs = [max (mix d p vs 0) (node_payoff P u dn 0 0)]"
    by (simp add: american_next_def)
  ultimately have "american_loop P u dn d p (rev [0..<Suc 0]) vs =
      Inr [max (mix d p vs 0) (node_payoff P u dn 0 0)]" by (simp only:)
  then show ?case by simp
next
  case (Suc k)
  have "length vs = Suc k + 2" using Suc.prems by simp
  then have "american_loop P u dn d p (rev [0..<Suc (Suc k)]) vs =
      american_loop P u dn d p (rev [0..<Suc k]) (american_next P u dn d p (Suc k) vs)"
    by (rule american_loop_Suc)
  moreover have "length (american_next P u dn d p (Suc k) vs) = k + 2"
    by (simp add: length_american_next)
  from Suc.IH[OF this] obtain a where
    "american_loop P u dn d p (rev [0..<Suc k]) (american_next P u dn d p (Suc k) vs) = Inr [a]"
    "node_payoff P u dn 0 0 \<le> a" by blast
  ultimately show ?case by (simp only:) blast
qed

lemma american_node_exercise_update:
  "american_node (P\<lparr>exercise := x\<rparr>) u dn d p k vs j = american_node P u dn d p k vs j"
  by (simp add: american_node_def split: sum.splits)

lemma american_round_exercise_update:
  "american_round (P\<lparr>exercise := x\<rparr>) u dn d p k vs = american_round P u dn d p k vs"
proof -
  have "american_node (P\<lparr>exercise := x\<rparr>) u dn d p k vs = american_node P u dn d p k vs"
    by (rule ext) (rule american_node_exercise_update)
  then show ?thesis by (simp only: american_round_def)
qed

lemma american_loop_exercise_update:
  "american_loop (P\<lparr>exercise := x\<rparr>) u dn d p ks vs = american_loop P u dn d p ks vs"
proof (induction ks arbitrary: vs)
  case Nil
  show ?case by simp
next
  case (Cons k ks)
  show ?case by (simp add: american_round_exercise_update Cons.IH cong: sum.case_cong)
qed

lemma terminal_values_exercise_update:
  "terminal_values (P\<lparr>exercise := x\<rparr>) u dn n = terminal_values P u dn n"
  by (simp add: terminal_values_def terminal_prices_def)

lemma nth_terminal_values:
  "j \<le> n \<Longrightarrow> terminal_values P u dn n ! j = node_payoff P u dn n j"
  unfolding terminal_values_def terminal_prices_def node_payoff_def
  by (simp del: upt_Suc)

lemma terminal_values_nonneg: "j \<le> n \<Longrightarrow> 0 \<le> terminal_values P u dn n ! j"
  by (simp add: nth_terminal_values node_payoff_def payoff_nonneg)

lemma calibratedD:
  assumes "calibrated p"
  obtains q where "BinomialParameters_validate p = None" "lattice_prob p = Inr q" "0 \<le> q" "q \<le> 1"
  using assms unfolding calibrated_def by (cases "lattice_prob p") auto

lemma lattice_disc_pos: "0 < lattice_disc p"
  by (simp add: lattice_disc_def)

subsection \<open>From the loops to the prices\<close>

lemma nat_steps_pos: "BinomialParameters_validate p = None \<Longrightarrow> \<exists>k. nat (steps p) = Suc k"
  unfolding validate_None_iff by (cases "nat (steps p)") auto

lemma price_pair:
  assumes c: "calibrated p"
  obtains q a e where "lattice_prob p = Inr q" "0 \<le> q" "q \<le> 1"
    "american_loop p (lattice_up p) (lattice_down p) (lattice_disc p) q (rev [0..<nat (steps p)])
       (terminal_values p (lattice_up p) (lattice_down p) (nat (steps p))) = Inr [a]"
    "european_loop (nat (steps p)) (lattice_disc p) q
       (terminal_values p (lattice_up p) (lattice_down p) (nat (steps p))) = Inr [e]"
    "e \<le> a" "0 \<le> e"
    "binomial_option_price (p\<lparr>exercise := ''american''\<rparr>) = Inr a"
    "binomial_option_price (p\<lparr>exercise := ''european''\<rparr>) = Inr e"
proof -
  from c obtain q where v: "BinomialParameters_validate p = None"
    and q: "lattice_prob p = Inr q" "0 \<le> q" "q \<le> 1" by (rule calibratedD)
  let ?n = "nat (steps p)"
  let ?tv = "terminal_values p (lattice_up p) (lattice_down p) ?n"
  have d: "0 \<le> lattice_disc p" using lattice_disc_pos[of p] by simp
  have l: "length ?tv = ?n + 1" by (rule terminal_values_length)
  have "\<forall>j\<le>?n. ?tv ! j \<le> ?tv ! j" by simp
  from american_ge_european_loop[OF d q(2,3) l l this]
  obtain a e where ae:
    "american_loop p (lattice_up p) (lattice_down p) (lattice_disc p) q (rev [0..<?n]) ?tv = Inr [a]"
    "european_loop ?n (lattice_disc p) q ?tv = Inr [e]" "e \<le> a" by blast
  have "\<forall>j\<le>?n. 0 \<le> ?tv ! j" by (simp add: terminal_values_nonneg)
  from european_loop_nonneg[OF d q(2,3) l this] ae(2) have e0: "0 \<le> e" by simp
  let ?pa = "p\<lparr>exercise := ''american''\<rparr>" and ?pe = "p\<lparr>exercise := ''european''\<rparr>"
  have va: "BinomialParameters_validate ?pa = None" using v by (rule validate_exercise_update) simp
  have ve: "BinomialParameters_validate ?pe = None" using v by (rule validate_exercise_update) simp
  have qa: "lattice_prob ?pa = Inr q" using q(1) by (simp only: lattice_exercise_update)
  have qe: "lattice_prob ?pe = Inr q" using q(1) by (simp only: lattice_exercise_update)
  have sa: "steps ?pa = steps p" "steps ?pe = steps p" by simp_all
  have xa: "exercise ?pa \<noteq> ''european''" by simp
  have xe: "exercise ?pe = ''european''" by simp
  have "american_loop ?pa (lattice_up ?pa) (lattice_down ?pa) (lattice_disc ?pa) q
          (rev [0..<nat (steps ?pa)])
          (terminal_values ?pa (lattice_up ?pa) (lattice_down ?pa) (nat (steps ?pa))) = Inr [a]"
    using ae(1)
    by (simp only: lattice_exercise_update sa american_loop_exercise_update
        terminal_values_exercise_update)
  from price_american[OF va qa q(2,3) xa this] have pa: "binomial_option_price ?pa = Inr a" .
  have "european_loop (nat (steps ?pe)) (lattice_disc ?pe) q
          (terminal_values ?pe (lattice_up ?pe) (lattice_down ?pe) (nat (steps ?pe))) = Inr [e]"
    using ae(2)
    by (simp only: lattice_exercise_update sa terminal_values_exercise_update)
  from price_european[OF ve qe q(2,3) xe this] have pe: "binomial_option_price ?pe = Inr e" .
  show ?thesis using that[OF q ae e0 pa pe] .
qed

lemma exercise_cases:
  assumes "BinomialParameters_validate p = None"
  shows "p = p\<lparr>exercise := ''european''\<rparr> \<or> p = p\<lparr>exercise := ''american''\<rparr>"
proof -
  have "exercise p = ''european'' \<or> exercise p = ''american''"
    using assms unfolding validate_None_iff by simp
  then show ?thesis by auto
qed

subsection \<open>Early-exercise premium\<close>

text \<open>
  Claim C1. For parameters that pass validation and whose risk-neutral probability is
  derived and lies in \<open>[0, 1]\<close>, both exercise styles return a price, and the price with
  exercise \<^verbatim>\<open>"american"\<close> is greater than or equal to the price with exercise
  \<^verbatim>\<open>"european"\<close>, all other parameters being the same.
\<close>

theorem american_ge_european:
  assumes "calibrated p"
  shows "\<exists>a e. binomial_option_price (p\<lparr>exercise := ''american''\<rparr>) = Inr a \<and>
               binomial_option_price (p\<lparr>exercise := ''european''\<rparr>) = Inr e \<and> e \<le> a"
  using assms by (rule price_pair) blast

theorem american_ge_european_witness:
  "calibrated example_params \<and>
   (\<exists>a e. binomial_option_price (example_params\<lparr>exercise := ''american''\<rparr>) = Inr a \<and>
          binomial_option_price (example_params\<lparr>exercise := ''european''\<rparr>) = Inr e \<and> e \<le> a)"
  using american_ge_european[OF example_params_calibrated] example_params_calibrated by simp

subsection \<open>Prices are not negative\<close>

text \<open>
  Claim C9. For parameters that pass validation and whose risk-neutral probability lies
  in \<open>[0, 1]\<close>, \<^verbatim>\<open>binomial_option_price\<close> returns a value greater than or equal to zero,
  for both option kinds and both exercise styles.
\<close>

theorem price_nonneg:
  assumes "calibrated p"
  shows "\<exists>v. binomial_option_price p = Inr v \<and> 0 \<le> v"
proof -
  from assms obtain a e where
    ae: "e \<le> a" "0 \<le> e"
    "binomial_option_price (p\<lparr>exercise := ''american''\<rparr>) = Inr a"
    "binomial_option_price (p\<lparr>exercise := ''european''\<rparr>) = Inr e"
    by (rule price_pair)
  have v: "BinomialParameters_validate p = None" using assms by (simp add: calibrated_def)
  from exercise_cases[OF v] show ?thesis
  proof
    assume "p = p\<lparr>exercise := ''european''\<rparr>"
    with ae(2,4) show ?thesis by metis
  next
    assume "p = p\<lparr>exercise := ''american''\<rparr>"
    moreover have "0 \<le> a" using ae(1,2) by simp
    ultimately show ?thesis using ae(3) by metis
  qed
qed

theorem price_nonneg_witness:
  "calibrated example_params \<and> (\<exists>v. binomial_option_price example_params = Inr v \<and> 0 \<le> v)"
  using price_nonneg[OF example_params_calibrated] example_params_calibrated by simp

subsection \<open>The American price dominates immediate exercise\<close>

text \<open>
  Claim C10. With exercise \<^verbatim>\<open>"american"\<close>, the returned price is greater than or equal
  to the payoff of exercising at once at the spot price: \<open>max (spot - strike) 0\<close> for a
  call and \<open>max (strike - spot) 0\<close> for a put.
\<close>

theorem american_ge_immediate_exercise:
  assumes c: "calibrated p" and x: "exercise p = ''american''"
  shows "\<exists>a. binomial_option_price p = Inr a \<and>
             (option_type p = ''call'' \<longrightarrow> max (spot p - strike p) 0 \<le> a) \<and>
             (option_type p = ''put'' \<longrightarrow> max (strike p - spot p) 0 \<le> a)"
proof -
  from c obtain q where v: "BinomialParameters_validate p = None"
    and q: "lattice_prob p = Inr q" "0 \<le> q" "q \<le> 1" by (rule calibratedD)
  from nat_steps_pos[OF v] obtain k where k: "nat (steps p) = Suc k" by blast
  let ?tv = "terminal_values p (lattice_up p) (lattice_down p) (Suc k)"
  have "length ?tv = k + 2" by (simp add: terminal_values_length)
  from american_loop_ge_exercise[OF this] obtain a where
    a: "american_loop p (lattice_up p) (lattice_down p) (lattice_disc p) q (rev [0..<Suc k]) ?tv = Inr [a]"
    "node_payoff p (lattice_up p) (lattice_down p) 0 0 \<le> a" by blast
  have ne: "exercise p \<noteq> ''european''" using x by simp
  have "american_loop p (lattice_up p) (lattice_down p) (lattice_disc p) q (rev [0..<nat (steps p)])
       (terminal_values p (lattice_up p) (lattice_down p) (nat (steps p))) = Inr [a]"
    using a(1) by (simp only: k)
  from price_american[OF v q ne this] have "binomial_option_price p = Inr a" .
  moreover have "node_payoff p (lattice_up p) (lattice_down p) 0 0
      = payoff (option_type p) (spot p) (strike p)" by (simp add: node_payoff_def)
  ultimately show ?thesis using a(2) by (auto simp: payoff_def)
qed

theorem american_ge_immediate_exercise_witness:
  "calibrated (example_params\<lparr>exercise := ''american'', strike := 90\<rparr>)
   \<and> exercise (example_params\<lparr>exercise := ''american'', strike := 90\<rparr>) = ''american''
   \<and> (\<exists>a. binomial_option_price (example_params\<lparr>exercise := ''american'', strike := 90\<rparr>) = Inr a
          \<and> 10 \<le> a)"
proof -
  let ?p = "example_params\<lparr>exercise := ''american'', strike := 90\<rparr>"
  have c: "calibrated ?p"
    by (rule calibratedI)
      (simp_all add: BinomialParameters_validate_def example_params_def lattice_dt_def power2_eq_square)
  have x: "exercise ?p = ''american''" by simp
  have "option_type ?p = ''call''" "spot ?p = 100" "strike ?p = 90"
    by (simp_all add: example_params_def)
  with american_ge_immediate_exercise[OF c x] c x show ?thesis by auto
qed

subsection \<open>Put-call parity\<close>

lemma prob_mix:
  assumes "lattice_prob p = Inr q"
  shows "q * lattice_up p + (1 - q) * lattice_down p = lattice_growth p"
proof -
  let ?u = "lattice_up p" and ?d = "lattice_down p" and ?g = "lattice_growth p"
  from assms have ne: "?u - ?d \<noteq> 0" and q: "q = (?g - ?d) / (?u - ?d)"
    by (auto simp: lattice_prob_def split: if_splits)
  have "q * (?u - ?d) = ?g - ?d" using ne q by simp
  moreover have "q * ?u + (1 - q) * ?d = q * (?u - ?d) + ?d" by (simp add: algebra_simps)
  ultimately show ?thesis by simp
qed

lemma node_up: "j \<le> k \<Longrightarrow> (u::real) ^ Suc j * dn ^ (Suc k - Suc j) = u * (u ^ j * dn ^ (k - j))"
  by simp

lemma node_down: "j \<le> k \<Longrightarrow> (u::real) ^ j * dn ^ (Suc k - j) = dn * (u ^ j * dn ^ (k - j))"
  by (simp add: Suc_diff_le)

lemma mix_diff:
  "mix d q vc j - mix d q vp j =
     d * (q * (vc ! Suc j - vp ! Suc j) + (1 - q) * (vc ! j - vp ! j))"
  by (simp add: mix_def algebra_simps)

lemma parity_step:
  fixes s K A B u dn d q g :: real
  assumes m: "q * u + (1 - q) * dn = g"
  shows "d * (q * (s * (u * X) * A - K * B) + (1 - q) * (s * (dn * X) * A - K * B))
         = s * X * (A * d * g) - K * (B * d)"
proof -
  have "d * (q * (s * (u * X) * A - K * B) + (1 - q) * (s * (dn * X) * A - K * B))
      = d * (s * X * A * (q * u + (1 - q) * dn) - K * B)"
    by (simp add: algebra_simps)
  also have "\<dots> = d * (s * X * A * g - K * B)" by (simp only: m)
  also have "\<dots> = s * X * (A * d * g) - K * (B * d)" by (simp add: algebra_simps)
  finally show ?thesis .
qed

lemma parity_loop:
  fixes s K u dn d q g :: real
  assumes m: "q * u + (1 - q) * dn = g"
  shows "length vc = k + 1 \<Longrightarrow> length vp = k + 1 \<Longrightarrow>
         (\<forall>j\<le>k. vc ! j - vp ! j = s * (u ^ j * dn ^ (k - j)) * A - K * B) \<Longrightarrow>
         \<exists>c r. european_loop k d q vc = Inr [c] \<and> european_loop k d q vp = Inr [r] \<and>
               c - r = s * A * (d * g) ^ k - K * B * d ^ k"
proof (induction k arbitrary: vc vp A B)
  case 0
  then have "vc = [vc ! 0]" "vp = [vp ! 0]" "vc ! 0 - vp ! 0 = s * A - K * B"
    by (simp_all add: len1)
  then show ?case
    by (metis european_loop.simps(1) mult.right_neutral power_0)
next
  case (Suc k)
  let ?vc = "european_next d q vc" and ?vp = "european_next d q vp"
  have lc: "length ?vc = k + 1" and lp: "length ?vp = k + 1"
    using Suc.prems by (simp_all add: length_european_next)
  have inv: "\<forall>j\<le>k. ?vc ! j - ?vp ! j = s * (u ^ j * dn ^ (k - j)) * (A * d * g) - K * (B * d)"
  proof (intro allI impI)
    fix j assume j: "j \<le> k"
    have e1: "vc ! Suc j - vp ! Suc j = s * (u * (u ^ j * dn ^ (k - j))) * A - K * B"
      using Suc.prems(3) j node_up[OF j, of u dn] by (simp del: power_Suc)
    have e2: "vc ! j - vp ! j = s * (dn * (u ^ j * dn ^ (k - j))) * A - K * B"
      using Suc.prems(3) j node_down[OF j, of u dn] by (simp del: power_Suc)
    have "?vc ! j - ?vp ! j = mix d q vc j - mix d q vp j"
      using Suc.prems j by (simp add: nth_european_next)
    also have "\<dots> = d * (q * (vc ! Suc j - vp ! Suc j) + (1 - q) * (vc ! j - vp ! j))"
      by (rule mix_diff)
    also have "\<dots> = d * (q * (s * (u * (u ^ j * dn ^ (k - j))) * A - K * B)
                       + (1 - q) * (s * (dn * (u ^ j * dn ^ (k - j))) * A - K * B))"
      by (simp only: e1 e2)
    also have "\<dots> = s * (u ^ j * dn ^ (k - j)) * (A * d * g) - K * (B * d)"
      by (rule parity_step[OF m])
    finally show "?vc ! j - ?vp ! j = s * (u ^ j * dn ^ (k - j)) * (A * d * g) - K * (B * d)" .
  qed
  from Suc.IH[OF lc lp inv] obtain c r where
    cr: "european_loop k d q ?vc = Inr [c]" "european_loop k d q ?vp = Inr [r]"
        "c - r = s * (A * d * g) * (d * g) ^ k - K * (B * d) * d ^ k" by blast
  have "c - r = s * A * (d * g) ^ Suc k - K * B * d ^ Suc k"
    using cr(3) by (simp add: algebra_simps)
  with cr(1,2) show ?case by (simp only: european_loop_Suc) blast
qed

lemma payoff_call_minus_put: "payoff ''call'' x K - payoff ''put'' x K = x - K"
  by (simp add: payoff_def max_def)

lemma steps_dt:
  assumes "BinomialParameters_validate p = None"
  shows "real (nat (steps p)) * lattice_dt p = time p"
proof -
  have "0 < steps p" using assms unfolding validate_None_iff by simp
  then show ?thesis by (simp add: lattice_dt_def)
qed

lemma disc_power:
  assumes "BinomialParameters_validate p = None"
  shows "lattice_disc p ^ nat (steps p) = exp (- rate p * time p)"
proof -
  have "lattice_disc p ^ nat (steps p) = exp (real (nat (steps p)) * (- rate p * lattice_dt p))"
    unfolding lattice_disc_def by (rule exp_of_nat_mult[symmetric])
  also have "real (nat (steps p)) * (- rate p * lattice_dt p)
      = - rate p * (real (nat (steps p)) * lattice_dt p)" by (simp add: algebra_simps)
  finally show ?thesis by (simp only: steps_dt[OF assms])
qed

lemma disc_growth: "lattice_disc p * lattice_growth p = exp (- dividend_yield p * lattice_dt p)"
proof -
  have "lattice_disc p * lattice_growth p
      = exp (- rate p * lattice_dt p + (rate p - dividend_yield p) * lattice_dt p)"
    unfolding lattice_disc_def lattice_growth_def by (rule exp_add[symmetric])
  also have "- rate p * lattice_dt p + (rate p - dividend_yield p) * lattice_dt p
      = - dividend_yield p * lattice_dt p" by (simp add: algebra_simps)
  finally show ?thesis .
qed

lemma disc_growth_power:
  assumes "BinomialParameters_validate p = None"
  shows "(lattice_disc p * lattice_growth p) ^ nat (steps p) = exp (- dividend_yield p * time p)"
proof -
  have "(lattice_disc p * lattice_growth p) ^ nat (steps p)
      = exp (real (nat (steps p)) * (- dividend_yield p * lattice_dt p))"
    unfolding disc_growth by (rule exp_of_nat_mult[symmetric])
  also have "real (nat (steps p)) * (- dividend_yield p * lattice_dt p)
      = - dividend_yield p * (real (nat (steps p)) * lattice_dt p)" by (simp add: algebra_simps)
  finally show ?thesis by (simp only: steps_dt[OF assms])
qed

lemma terminal_values_option_type:
  "j \<le> n \<Longrightarrow> terminal_values (p\<lparr>option_type := t\<rparr>) u dn n ! j
     = payoff t (spot p * u ^ j * dn ^ (n - j)) (strike p)"
  by (simp add: nth_terminal_values node_payoff_def)

text \<open>
  Claim C5. For parameters that pass validation, with exercise \<^verbatim>\<open>"european"\<close> and a
  risk-neutral probability in \<open>[0, 1]\<close>, the price of the call minus the price of the put
  (all other parameters the same) is
  \<open>spot * exp (- dividend_yield * time) - strike * exp (- rate * time)\<close>. In real
  arithmetic the two sides are equal, which is within every tolerance.
\<close>

theorem put_call_parity:
  assumes c: "calibrated p" and x: "exercise p = ''european''"
  shows "\<exists>c r. binomial_option_price (p\<lparr>option_type := ''call''\<rparr>) = Inr c \<and>
               binomial_option_price (p\<lparr>option_type := ''put''\<rparr>) = Inr r \<and>
               c - r = spot p * exp (- dividend_yield p * time p)
                       - strike p * exp (- rate p * time p)"
proof -
  from c obtain q where v: "BinomialParameters_validate p = None"
    and q: "lattice_prob p = Inr q" "0 \<le> q" "q \<le> 1" by (rule calibratedD)
  let ?n = "nat (steps p)"
  let ?u = "lattice_up p" and ?dn = "lattice_down p" and ?d = "lattice_disc p"
  let ?pc = "p\<lparr>option_type := ''call''\<rparr>" and ?pp = "p\<lparr>option_type := ''put''\<rparr>"
  let ?vc = "terminal_values ?pc ?u ?dn ?n" and ?vp = "terminal_values ?pp ?u ?dn ?n"
  have lc: "length ?vc = ?n + 1" and lp: "length ?vp = ?n + 1"
    by (rule terminal_values_length)+
  have inv: "\<forall>j\<le>?n. ?vc ! j - ?vp ! j = spot p * (?u ^ j * ?dn ^ (?n - j)) * 1 - strike p * 1"
    by (simp add: terminal_values_option_type payoff_call_minus_put)
  from parity_loop[OF prob_mix[OF q(1)] lc lp inv, of ?d] obtain cc r where
    cr: "european_loop ?n ?d q ?vc = Inr [cc]" "european_loop ?n ?d q ?vp = Inr [r]"
        "cc - r = spot p * 1 * (?d * lattice_growth p) ^ ?n - strike p * 1 * ?d ^ ?n" by blast
  have eq: "cc - r = spot p * exp (- dividend_yield p * time p) - strike p * exp (- rate p * time p)"
    using cr(3) by (simp only: disc_power[OF v] disc_growth_power[OF v] mult_1_right)
  have vc: "BinomialParameters_validate ?pc = None" using v by (rule validate_option_type_update) simp
  have vp: "BinomialParameters_validate ?pp = None" using v by (rule validate_option_type_update) simp
  have qc: "lattice_prob ?pc = Inr q" using q(1) by (simp only: lattice_option_type_update)
  have qp: "lattice_prob ?pp = Inr q" using q(1) by (simp only: lattice_option_type_update)
  have xc: "exercise ?pc = ''european''" and xp: "exercise ?pp = ''european''" using x by simp_all
  have sc: "steps ?pc = steps p" "steps ?pp = steps p" by simp_all
  have "european_loop (nat (steps ?pc)) (lattice_disc ?pc) q
          (terminal_values ?pc (lattice_up ?pc) (lattice_down ?pc) (nat (steps ?pc))) = Inr [cc]"
    using cr(1) by (simp only: lattice_option_type_update sc)
  from price_european[OF vc qc q(2,3) xc this] have pc: "binomial_option_price ?pc = Inr cc" .
  have "european_loop (nat (steps ?pp)) (lattice_disc ?pp) q
          (terminal_values ?pp (lattice_up ?pp) (lattice_down ?pp) (nat (steps ?pp))) = Inr [r]"
    using cr(2) by (simp only: lattice_option_type_update sc)
  from price_european[OF vp qp q(2,3) xp this] have pp: "binomial_option_price ?pp = Inr r" .
  from pc pp eq show ?thesis by blast
qed

theorem put_call_parity_witness:
  "calibrated example_params \<and> exercise example_params = ''european'' \<and>
   (\<exists>c r. binomial_option_price (example_params\<lparr>option_type := ''call''\<rparr>) = Inr c \<and>
          binomial_option_price (example_params\<lparr>option_type := ''put''\<rparr>) = Inr r \<and>
          c - r = 100 - 100 * exp (- (1 / 20)))"
proof -
  have x: "exercise example_params = ''european''" by (simp add: example_params_def)
  have "spot example_params = 100" "strike example_params = 100" "rate example_params = 1 / 20"
    "time example_params = 1" "dividend_yield example_params = 0"
    by (simp_all add: example_params_def)
  with put_call_parity[OF example_params_calibrated x] example_params_calibrated x
  show ?thesis by simp
qed

subsection \<open>Calls without dividends\<close>

lemma call_continuation_bound:
  fixes s K u dn d q g X :: real
  assumes m: "q * u + (1 - q) * dn = g" and dg: "d * g = 1" and d0: "0 \<le> d" and d1: "d \<le> 1"
    and q0: "0 \<le> q" and q1: "q \<le> 1" and K: "0 \<le> K"
    and hi: "max (s * (u * X) - K) 0 \<le> vhi" and lo: "max (s * (dn * X) - K) 0 \<le> vlo"
  shows "max (s * X - K) 0 \<le> d * (q * vhi + (1 - q) * vlo)"
proof -
  have hi1: "s * (u * X) - K \<le> vhi" and hi0: "0 \<le> vhi" using hi by simp_all
  have lo1: "s * (dn * X) - K \<le> vlo" and lo0: "0 \<le> vlo" using lo by simp_all
  have a: "q * (s * (u * X) - K) \<le> q * vhi" using hi1 q0 by (rule mult_left_mono)
  have b: "(1 - q) * (s * (dn * X) - K) \<le> (1 - q) * vlo" using lo1 q1 by (intro mult_left_mono) simp_all
  have "q * (s * (u * X) - K) + (1 - q) * (s * (dn * X) - K) = s * X * (q * u + (1 - q) * dn) - K"
    by (simp add: algebra_simps)
  also have "\<dots> = s * X * g - K" by (simp only: m)
  finally have "s * X * g - K \<le> q * vhi + (1 - q) * vlo" using a b by linarith
  then have "d * (s * X * g - K) \<le> d * (q * vhi + (1 - q) * vlo)" using d0 by (rule mult_left_mono)
  moreover have "d * (s * X * g - K) = s * X * (d * g) - d * K" by (simp add: algebra_simps)
  moreover have "d * K \<le> K" using mult_right_mono[OF d1 K] by simp
  ultimately have 1: "s * X - K \<le> d * (q * vhi + (1 - q) * vlo)" by (simp add: dg)
  have "0 \<le> q * vhi + (1 - q) * vlo" using q0 q1 hi0 lo0 by simp
  then have 2: "0 \<le> d * (q * vhi + (1 - q) * vlo)" using d0 by simp
  from 1 2 show ?thesis by simp
qed

lemma call_no_early_exercise_loop:
  assumes m: "q * u + (1 - q) * dn = g" and dg: "d * g = 1" and d0: "0 \<le> d" and d1: "d \<le> 1"
    and q0: "0 \<le> q" and q1: "q \<le> 1" and K: "0 \<le> strike P" and call: "option_type P = ''call''"
  shows "length vs = k + 1 \<Longrightarrow>
         (\<forall>j\<le>k. max (spot P * (u ^ j * dn ^ (k - j)) - strike P) 0 \<le> vs ! j) \<Longrightarrow>
         american_loop P u dn d q (rev [0..<k]) vs = european_loop k d q vs"
proof (induction k arbitrary: vs)
  case 0
  show ?case by simp
next
  case (Suc k)
  have bound: "max (spot P * (u ^ j * dn ^ (k - j)) - strike P) 0 \<le> mix d q vs j" if j: "j \<le> k" for j
  proof -
    have sj: "Suc j \<le> Suc k" and j': "j \<le> Suc k" using j by simp_all
    have hi: "max (spot P * (u * (u ^ j * dn ^ (k - j))) - strike P) 0 \<le> vs ! Suc j"
      using Suc.prems(2)[rule_format, OF sj] by (simp only: node_up[OF j])
    have lo: "max (spot P * (dn * (u ^ j * dn ^ (k - j))) - strike P) 0 \<le> vs ! j"
      using Suc.prems(2)[rule_format, OF j'] by (simp only: node_down[OF j])
    show ?thesis unfolding mix_def
      by (rule call_continuation_bound[OF m dg d0 d1 q0 q1 K hi lo])
  qed
  have eq: "american_next P u dn d q k vs = european_next d q vs"
  proof (rule nth_equalityI)
    show "length (american_next P u dn d q k vs) = length (european_next d q vs)"
      using Suc.prems(1) by (simp add: length_american_next length_european_next)
  next
    fix j assume "j < length (american_next P u dn d q k vs)"
    then have j: "j \<le> k" by (simp add: length_american_next)
    have np: "node_payoff P u dn k j = max (spot P * (u ^ j * dn ^ (k - j)) - strike P) 0"
      by (simp add: node_payoff_def payoff_def call mult.assoc)
    have "american_next P u dn d q k vs ! j = max (mix d q vs j) (node_payoff P u dn k j)"
      using j by (rule nth_american_next)
    also have "\<dots> = mix d q vs j" using bound[OF j] np by simp
    also have "\<dots> = european_next d q vs ! j"
      using j Suc.prems(1) by (simp add: nth_european_next)
    finally show "american_next P u dn d q k vs ! j = european_next d q vs ! j" .
  qed
  have l: "length (european_next d q vs) = k + 1"
    using Suc.prems(1) by (simp add: length_european_next)
  have inv: "\<forall>j\<le>k. max (spot P * (u ^ j * dn ^ (k - j)) - strike P) 0 \<le> european_next d q vs ! j"
  proof (intro allI impI)
    fix j assume j: "j \<le> k"
    then have "european_next d q vs ! j = mix d q vs j"
      using Suc.prems(1) by (simp add: nth_european_next)
    with bound[OF j] show "max (spot P * (u ^ j * dn ^ (k - j)) - strike P) 0 \<le> european_next d q vs ! j"
      by simp
  qed
  have "length vs = k + 2" using Suc.prems(1) by simp
  then have "american_loop P u dn d q (rev [0..<Suc k]) vs
      = american_loop P u dn d q (rev [0..<k]) (american_next P u dn d q k vs)"
    by (rule american_loop_Suc)
  also have "\<dots> = american_loop P u dn d q (rev [0..<k]) (european_next d q vs)"
    by (simp only: eq)
  also have "\<dots> = european_loop k d q (european_next d q vs)" by (rule Suc.IH[OF l inv])
  also have "\<dots> = european_loop (Suc k) d q vs" by (simp only: european_loop_Suc)
  finally show ?case .
qed

text \<open>A one-step lattice, computed by hand.\<close>

lemma european_loop_one:
  "european_loop (Suc 0) d q [v0, v1] = Inr [d * (q * v1 + (1 - q) * v0)]"
  by (simp add: european_round_ok european_next_def mix_def)

lemma american_loop_one:
  "american_loop P u dn d q (rev [0..<Suc 0]) [v0, v1] =
     Inr [max (d * (q * v1 + (1 - q) * v0)) (payoff (option_type P) (spot P) (strike P))]"
  by (simp add: american_round_ok american_next_def mix_def node_payoff_def)

lemma terminal_values_one:
  "terminal_values P u dn (Suc 0) =
     [payoff (option_type P) (spot P * dn) (strike P), payoff (option_type P) (spot P * u) (strike P)]"
  by (simp add: terminal_values_def terminal_prices_def)

lemma negative_rate_params_calibrated: "calibrated negative_rate_params"
  by (rule calibratedI)
    (simp_all add: BinomialParameters_validate_def negative_rate_params_def lattice_dt_def
      power2_eq_square)

lemma negative_rate_prices:
  "binomial_option_price (negative_rate_params\<lparr>exercise := ''american''\<rparr>) = Inr 99 \<and>
   binomial_option_price (negative_rate_params\<lparr>exercise := ''european''\<rparr>) = Inr (100 - exp (1 / 2))"
proof -
  let ?p = negative_rate_params
  let ?u = "lattice_up ?p" and ?dn = "lattice_down ?p" and ?d = "lattice_disc ?p"
    and ?g = "lattice_growth ?p"
  from negative_rate_params_calibrated obtain q a e where q: "lattice_prob ?p = Inr q"
    and a: "american_loop ?p ?u ?dn ?d q (rev [0..<nat (steps ?p)])
       (terminal_values ?p ?u ?dn (nat (steps ?p))) = Inr [a]"
    and e: "european_loop (nat (steps ?p)) ?d q
       (terminal_values ?p ?u ?dn (nat (steps ?p))) = Inr [e]"
    and pa: "binomial_option_price (?p\<lparr>exercise := ''american''\<rparr>) = Inr a"
    and pe: "binomial_option_price (?p\<lparr>exercise := ''european''\<rparr>) = Inr e"
    by (rule price_pair)
  have n: "nat (steps ?p) = Suc 0" by (simp add: negative_rate_params_def)
  have f: "spot ?p = 100" "strike ?p = 1" "option_type ?p = ''call''"
    by (simp_all add: negative_rate_params_def)
  have dt: "lattice_dt ?p = 1" by (simp add: lattice_dt_def negative_rate_params_def)
  have u: "?u = exp 1" by (simp add: lattice_up_def dt) (simp add: negative_rate_params_def)
  have dn: "?dn = 1 / exp 1" by (simp only: lattice_down_def u)
  have d: "?d = exp (1 / 2)" by (simp add: lattice_disc_def dt) (simp add: negative_rate_params_def)
  have dg: "?d * ?g = 1" by (simp add: disc_growth) (simp add: negative_rate_params_def)
  have m: "q * ?u + (1 - q) * ?dn = ?g" by (rule prob_mix[OF q])
  have u1: "1 \<le> ?u" unfolding u by simp
  have "exp (1::real) \<le> 3" by (rule exp_le)
  then have "(1::real) / 3 \<le> 1 / exp 1" by (simp add: field_simps)
  then have dn1: "1 \<le> 100 * ?dn" unfolding dn by linarith
  have tv: "terminal_values ?p ?u ?dn (Suc 0) = [100 * ?dn - 1, 100 * ?u - 1]"
    using u1 dn1 by (simp add: terminal_values_one f payoff_def)
  have "?d * (q * (100 * ?u - 1) + (1 - q) * (100 * ?dn - 1))
      = ?d * (100 * (q * ?u + (1 - q) * ?dn) - 1)" by (simp add: algebra_simps)
  also have "\<dots> = ?d * (100 * ?g - 1)" by (simp only: m)
  also have "\<dots> = 100 * (?d * ?g) - ?d" by (simp add: algebra_simps)
  also have "\<dots> = 100 * 1 - ?d" by (simp only: dg)
  also have "\<dots> = 100 - exp (1 / 2)" by (simp add: d)
  finally have c: "?d * (q * (100 * ?u - 1) + (1 - q) * (100 * ?dn - 1)) = 100 - exp (1 / 2)" .
  have "e = 100 - exp (1 / 2)"
    using e by (simp only: n tv european_loop_one c) simp
  moreover have "(1::real) \<le> exp (1 / 2)" by simp
  then have "max (100 - exp (1 / 2)) (99::real) = 99" by simp
  then have "a = 99"
    using a by (simp only: n tv american_loop_one c f payoff_def) simp
  ultimately show ?thesis using pa pe by simp
qed

text \<open>
  Claim C6 says that for a call with zero dividend yield the American price equals the
  European price. With a negative rate this fails: the discounted strike exceeds the
  strike, and exercising at once is worth more than waiting. For \<open>negative_rate_params\<close>
  (spot 100, strike 1, rate \<open>-1/2\<close>, one step) the European price is \<open>100 - exp (1/2)\<close>
  and the American price is \<open>99\<close>.
\<close>

theorem american_call_premium_counterexample:
  "calibrated negative_rate_params \<and> option_type negative_rate_params = ''call'' \<and>
   dividend_yield negative_rate_params = 0 \<and>
   binomial_option_price (negative_rate_params\<lparr>exercise := ''american''\<rparr>)
     \<noteq> binomial_option_price (negative_rate_params\<lparr>exercise := ''european''\<rparr>)"
proof -
  have "(1::real) < exp (1 / 2)" by simp
  then have "(99::real) \<noteq> 100 - exp (1 / 2)" by linarith
  moreover have "option_type negative_rate_params = ''call''"
    "dividend_yield negative_rate_params = 0" by (simp_all add: negative_rate_params_def)
  ultimately show ?thesis
    using negative_rate_params_calibrated negative_rate_prices by simp
qed

text \<open>
  Claim C6, amended: for a call with zero dividend yield and a rate that is not negative
  (parameters that pass validation, risk-neutral probability in \<open>[0, 1]\<close>), the
  American price equals the European price within small numeric tolerance. In real
  arithmetic the continuation value is never below the exercise value, so the two
  prices are equal, which is within every tolerance; at rate zero the two values tie at
  nodes in the money, and the rounding of the returned floats, which may break the tie
  in the last bits, is outside the model.
\<close>

theorem american_call_equals_european:
  assumes c: "calibrated p" and call: "option_type p = ''call''"
    and q0: "dividend_yield p = 0" and r0: "0 \<le> rate p"
  shows "\<exists>v. binomial_option_price (p\<lparr>exercise := ''american''\<rparr>) = Inr v \<and>
             binomial_option_price (p\<lparr>exercise := ''european''\<rparr>) = Inr v"
proof -
  from c obtain q a e where q: "lattice_prob p = Inr q" "0 \<le> q" "q \<le> 1"
    and a: "american_loop p (lattice_up p) (lattice_down p) (lattice_disc p) q (rev [0..<nat (steps p)])
       (terminal_values p (lattice_up p) (lattice_down p) (nat (steps p))) = Inr [a]"
    and e: "european_loop (nat (steps p)) (lattice_disc p) q
       (terminal_values p (lattice_up p) (lattice_down p) (nat (steps p))) = Inr [e]"
    and pa: "binomial_option_price (p\<lparr>exercise := ''american''\<rparr>) = Inr a"
    and pe: "binomial_option_price (p\<lparr>exercise := ''european''\<rparr>) = Inr e"
    by (rule price_pair)
  have v: "BinomialParameters_validate p = None" using c by (simp add: calibrated_def)
  let ?n = "nat (steps p)"
  let ?tv = "terminal_values p (lattice_up p) (lattice_down p) ?n"
  have dt: "0 < lattice_dt p" by (rule lattice_dt_pos[OF v])
  have dg: "lattice_disc p * lattice_growth p = 1" by (simp add: disc_growth q0)
  have d0: "0 \<le> lattice_disc p" using lattice_disc_pos[of p] by simp
  have "rate p * lattice_dt p \<ge> 0" using r0 dt by simp
  then have d1: "lattice_disc p \<le> 1" by (simp add: lattice_disc_def)
  have K: "0 \<le> strike p" using v unfolding validate_None_iff by simp
  have l: "length ?tv = ?n + 1" by (rule terminal_values_length)
  have inv: "\<forall>j\<le>?n. max (spot p * (lattice_up p ^ j * lattice_down p ^ (?n - j)) - strike p) 0 \<le> ?tv ! j"
    by (simp add: nth_terminal_values node_payoff_def payoff_def call mult.assoc)
  from call_no_early_exercise_loop[OF prob_mix[OF q(1)] dg d0 d1 q(2,3) K call l inv]
  have "Inr [a] = (Inr [e] :: error + real list)" using a e by simp
  then have "a = e" by simp
  with pa pe show ?thesis by simp
qed

theorem american_call_equals_european_witness:
  "calibrated example_params \<and> option_type example_params = ''call'' \<and>
   dividend_yield example_params = 0 \<and> 0 \<le> rate example_params \<and>
   (\<exists>v. binomial_option_price (example_params\<lparr>exercise := ''american''\<rparr>) = Inr v \<and>
        binomial_option_price (example_params\<lparr>exercise := ''european''\<rparr>) = Inr v)"
proof -
  have f: "option_type example_params = ''call''" "dividend_yield example_params = 0"
    "0 \<le> rate example_params" by (simp_all add: example_params_def)
  from american_call_equals_european[OF example_params_calibrated f] example_params_calibrated f
  show ?thesis by simp
qed

subsection \<open>Path simulation\<close>

lemma column_ok:
  assumes "\<forall>i<length m. c < length (m ! i)"
  shows "column m c = Inr (map (\<lambda>row. row ! c) m)"
  unfolding column_def
proof (rule map_err_ok)
  fix row assume "row \<in> set m"
  then obtain i where "i < length m" "row = m ! i" by (auto simp: in_set_conv_nth)
  with assms show "get row c = Inr (row ! c)" by (simp add: get_ok)
qed

lemma set_column_ok:
  "\<forall>i<length m. c < length (m ! i) \<Longrightarrow> length v = length m \<Longrightarrow>
   set_column m c v = Inr (map (\<lambda>i. (m ! i)[c := v ! i]) [0..<length m])"
  by (simp add: set_column_def)

lemma fill_step:
  assumes f: "filled s0 r n c m" and c1: "1 \<le> c" and cn: "c \<le> n"
  shows "\<exists>m'. fill_columns drift diffusion shocks (c # rest) m
               = fill_columns drift diffusion shocks rest m' \<and> filled s0 r n (Suc c) m'"
proof -
  from f have len: "length m = r"
    and row: "\<And>i. i < r \<Longrightarrow> length (m ! i) = n + 1"
    and col0: "\<And>i. i < r \<Longrightarrow> m ! i ! 0 = s0"
    and pos: "\<And>i j. i < r \<Longrightarrow> j < c \<Longrightarrow> 0 < m ! i ! j"
    by (simp_all add: filled_def)
  let ?prev = "map (\<lambda>row. row ! (c - 1)) m"
  let ?new = "map (\<lambda>i. ?prev ! i * exp (drift + diffusion * shocks i (c - 1))) [0..<length ?prev]"
  let ?m' = "map (\<lambda>i. (m ! i)[c := ?new ! i]) [0..<length m]"
  have r1: "\<forall>i<length m. c - 1 < length (m ! i)" using len row cn by auto
  have r2: "\<forall>i<length m. c < length (m ! i)" using len row cn by simp
  have cp: "column m (c - 1) = Inr ?prev" by (rule column_ok[OF r1])
  have sc: "set_column m c ?new = Inr ?m'" by (rule set_column_ok[OF r2]) simp
  have step: "fill_columns drift diffusion shocks (c # rest) m
      = fill_columns drift diffusion shocks rest ?m'"
    by (simp only: fill_columns.simps cp sc sum.case)
  have "filled s0 r n (Suc c) ?m'"
    unfolding filled_def
  proof (intro conjI allI impI)
    show "length ?m' = r" using len by simp
  next
    fix i assume i: "i < r"
    then show "length (?m' ! i) = n + 1" using len row by simp
  next
    fix i assume i: "i < r"
    have "?m' ! i ! 0 = m ! i ! 0" using i len c1 by simp
    then show "?m' ! i ! 0 = s0" using col0[OF i] by simp
  next
    fix i j assume i: "i < r" and j: "j < Suc c"
    have mi: "?m' ! i = (m ! i)[c := m ! i ! (c - 1) * exp (drift + diffusion * shocks i (c - 1))]"
      using i len by simp
    show "0 < ?m' ! i ! j"
    proof (cases "j = c")
      case True
      have "c < length (m ! i)" using row[OF i] cn by simp
      then have "?m' ! i ! j = m ! i ! (c - 1) * exp (drift + diffusion * shocks i (c - 1))"
        using True mi by simp
      moreover have "0 < m ! i ! (c - 1)" using pos[OF i, of "c - 1"] c1 by simp
      ultimately show ?thesis by simp
    next
      case False
      then have "j < c" using j by simp
      moreover have "?m' ! i ! j = m ! i ! j" using False mi by simp
      ultimately show ?thesis using pos[OF i] by simp
    qed
  qed
  with step show ?thesis by blast
qed

lemma fill_columns_ok:
  "filled s0 r n c m \<Longrightarrow> 1 \<le> c \<Longrightarrow> c \<le> n + 1 \<Longrightarrow>
   \<exists>m'. fill_columns drift diffusion shocks [c..<n + 1] m = Inr m' \<and> filled s0 r n (n + 1) m'"
proof (induction "n + 1 - c" arbitrary: c m)
  case 0
  then have "c = n + 1" by simp
  with 0 show ?case by simp
next
  case (Suc k)
  then have cn: "c \<le> n" by simp
  then have u: "[c..<n + 1] = c # [Suc c..<n + 1]" by (simp add: upt_conv_Cons)
  from fill_step[OF Suc.prems(1,2) cn, of drift diffusion shocks "[Suc c..<n + 1]"]
  obtain m' where m': "fill_columns drift diffusion shocks (c # [Suc c..<n + 1]) m
       = fill_columns drift diffusion shocks [Suc c..<n + 1] m'" "filled s0 r n (Suc c) m'"
    by blast
  have "k = n + 1 - Suc c" using Suc.hyps(2) by simp
  from Suc.hyps(1)[OF this m'(2)] cn
  obtain m'' where "fill_columns drift diffusion shocks [Suc c..<n + 1] m' = Inr m''"
    "filled s0 r n (n + 1) m''" by auto
  with m'(1) u show ?case by simp
qed

lemma mc_validate_None_iff:
  "MonteCarloParameters_validate p = None \<longleftrightarrow>
     0 < MonteCarloParameters.spot p \<and> 0 \<le> MonteCarloParameters.volatility p \<and>
     0 < MonteCarloParameters.time p \<and> 0 < paths p \<and> 0 < MonteCarloParameters.steps p"
  by (auto simp: MonteCarloParameters_validate_def)

lemma simulate_paths_ok:
  assumes v: "MonteCarloParameters_validate p = None" and sd: "seed_accepted (seed p)"
  shows "\<exists>ps. simulate_paths p draws mem = Inr ps \<and>
          filled (MonteCarloParameters.spot p) (nat (paths p)) (nat (MonteCarloParameters.steps p))
            (nat (MonteCarloParameters.steps p) + 1) ps"
proof -
  let ?r = "nat (paths p)" and ?n = "nat (MonteCarloParameters.steps p)"
  let ?s0 = "MonteCarloParameters.spot p"
  from v have s0: "0 < ?s0" and st: "0 < MonteCarloParameters.steps p"
    unfolding mc_validate_None_iff by simp_all
  have n1: "nat (MonteCarloParameters.steps p + 1) = ?n + 1" using st by simp
  have rng: "default_rng draws (seed p) = Inr (draws (seed p))"
    using sd by (simp add: default_rng_def)
  let ?e = "np_empty mem ?r (?n + 1)"
  let ?m0 = "map (\<lambda>i. (?e ! i)[0 := replicate (length ?e) ?s0 ! i]) [0..<length ?e]"
  have le: "length ?e = ?r" by (simp add: np_empty_def)
  have re: "\<forall>i<length ?e. length (?e ! i) = ?n + 1" by (simp add: np_empty_def)
  have "\<forall>i<length ?e. 0 < length (?e ! i)" using re by simp
  then have sc: "set_column ?e 0 (replicate (length ?e) ?s0) = Inr ?m0"
    by (rule set_column_ok) simp
  have f0: "filled ?s0 ?r ?n 1 ?m0"
    unfolding filled_def using le re s0 by simp
  from fill_columns_ok[OF f0, of _ _ "draws (seed p)"] obtain ps where
    ps: "fill_columns
           ((MonteCarloParameters.rate p - MonteCarloParameters.dividend_yield p
              - 0.5 * (MonteCarloParameters.volatility p)\<^sup>2)
             * (MonteCarloParameters.time p / real_of_int (MonteCarloParameters.steps p)))
           (MonteCarloParameters.volatility p
             * sqrt (MonteCarloParameters.time p / real_of_int (MonteCarloParameters.steps p)))
           (draws (seed p)) [1..<?n + 1] ?m0 = Inr ps"
        "filled ?s0 ?r ?n (?n + 1) ps"
    by force
  have "simulate_paths p draws mem = Inr ps"
    unfolding simulate_paths_def Let_def by (simp only: v option.case rng n1 sc sum.case ps(1))
  with ps(2) show ?thesis by blast
qed

lemma simulate_paths_refused_seed:
  assumes "MonteCarloParameters_validate p = None" and "\<not> seed_accepted (seed p)"
  shows "simulate_paths p draws mem = Inl (SeedError ''expected non-negative integer'')"
  using assms by (simp add: simulate_paths_def default_rng_def)

lemma mc_example_valid: "MonteCarloParameters_validate mc_example_params = None"
  by (simp add: MonteCarloParameters_validate_def mc_example_params_def)

lemma mc_example_seed: "seed_accepted (seed mc_example_params)"
  by (simp add: seed_accepted_def mc_example_params_def)

lemma negative_seed_valid: "MonteCarloParameters_validate negative_seed_params = None"
  by (simp add: MonteCarloParameters_validate_def negative_seed_params_def mc_example_params_def)

lemma negative_seed_refused: "\<not> seed_accepted (seed negative_seed_params)"
  by (simp add: seed_accepted_def negative_seed_params_def)




subsection \<open>The Monte Carlo estimator\<close>

lemma monte_carlo_price_cases:
  assumes "simulate_paths p draws mem = Inr ps"
  shows "monte_carlo_price p payoff_fn draws mem =
     (if int (length (payoff_fn ps)) \<noteq> paths p
      then Inl (PayoffShapeError ''Payoff function must return one value per path'')
      else Inr (exp (- MonteCarloParameters.rate p * MonteCarloParameters.time p)
                  * np_mean (payoff_fn ps)))"
  by (simp add: monte_carlo_price_def assms Let_def)

lemma monte_carlo_price_refused_seed:
  assumes "MonteCarloParameters_validate p = None" and "\<not> seed_accepted (seed p)"
  shows "monte_carlo_price p payoff_fn draws mem
           = Inl (SeedError ''expected non-negative integer'')"
  by (simp add: monte_carlo_price_def simulate_paths_refused_seed[OF assms])

lemma np_mean_sum:
  assumes "int (length xs) = n"
  shows "np_mean xs = (\<Sum>i<nat n. xs ! i) / real_of_int n"
proof -
  have "nat n = length xs" using assms by simp
  moreover have "real_of_int n = real (length xs)" using assms by simp
  ultimately show ?thesis
    by (simp add: np_mean_def sum_list_sum_nth atLeast0LessThan)
qed

lemma length_terminal_call_payoff: "length (terminal_call_payoff ps) = length ps"
  by (simp add: terminal_call_payoff_def)

text \<open>
  Claim C4 says that for every valid parameter record and every payoff that returns one
  scalar per path, \<^verbatim>\<open>monte_carlo_price\<close> returns the discounted mean. The terminal call
  payoff returns one scalar per path, but for the example with seed \<open>-1\<close> the generator
  refuses the seed and no price is returned.
\<close>

theorem monte_carlo_price_negative_seed_counterexample:
  "MonteCarloParameters_validate negative_seed_params = None \<and>
   monte_carlo_price negative_seed_params terminal_call_payoff zero_draws stale_memory
     = Inl (SeedError ''expected non-negative integer'')"
  using negative_seed_valid
    monte_carlo_price_refused_seed[OF negative_seed_valid negative_seed_refused]
  by simp

text \<open>
  Claim C4, amended: for valid simulation parameters whose seed is \<^verbatim>\<open>None\<close> or an
  integer that is not negative, the paths are simulated, and when the payoff function
  returns exactly one scalar per path, \<^verbatim>\<open>monte_carlo_price\<close> returns
  \<open>exp (- rate * time)\<close> times the arithmetic mean of the payoff values: their sum over
  the \<^verbatim>\<open>paths\<close> paths divided by \<^verbatim>\<open>paths\<close>.
\<close>

theorem monte_carlo_price_value:
  assumes "MonteCarloParameters_validate p = None" and "seed_accepted (seed p)"
  shows "\<exists>ps. simulate_paths p draws mem = Inr ps \<and>
          (int (length (payoff_fn ps)) = paths p \<longrightarrow>
             monte_carlo_price p payoff_fn draws mem =
               Inr (exp (- MonteCarloParameters.rate p * MonteCarloParameters.time p)
                      * ((\<Sum>i<nat (paths p). payoff_fn ps ! i) / real_of_int (paths p))))"
proof -
  from simulate_paths_ok[OF assms, of draws mem] obtain ps where
    ps: "simulate_paths p draws mem = Inr ps" by blast
  have "monte_carlo_price p payoff_fn draws mem =
      Inr (exp (- MonteCarloParameters.rate p * MonteCarloParameters.time p)
             * ((\<Sum>i<nat (paths p). payoff_fn ps ! i) / real_of_int (paths p)))"
    if l: "int (length (payoff_fn ps)) = paths p"
    using l by (simp add: monte_carlo_price_cases[OF ps] np_mean_sum[OF l])
  with ps show ?thesis by blast
qed

theorem monte_carlo_price_value_witness:
  "MonteCarloParameters_validate mc_example_params = None \<and>
   seed_accepted (seed mc_example_params) \<and>
   (\<exists>ps. simulate_paths mc_example_params zero_draws stale_memory = Inr ps \<and>
         int (length (terminal_call_payoff ps)) = paths mc_example_params \<and>
         monte_carlo_price mc_example_params terminal_call_payoff zero_draws stale_memory =
           Inr (exp (- (1 / 20)) * ((\<Sum>i<50000. terminal_call_payoff ps ! i) / 50000)))"
proof -
  from monte_carlo_price_value[OF mc_example_valid mc_example_seed,
      of zero_draws stale_memory terminal_call_payoff]
  obtain ps where ps: "simulate_paths mc_example_params zero_draws stale_memory = Inr ps"
    and imp: "int (length (terminal_call_payoff ps)) = paths mc_example_params \<longrightarrow>
       monte_carlo_price mc_example_params terminal_call_payoff zero_draws stale_memory =
         Inr (exp (- MonteCarloParameters.rate mc_example_params
                     * MonteCarloParameters.time mc_example_params)
                * ((\<Sum>i<nat (paths mc_example_params). terminal_call_payoff ps ! i)
                     / real_of_int (paths mc_example_params)))"
    by blast
  from simulate_paths_ok[OF mc_example_valid mc_example_seed, of zero_draws stale_memory] ps
  have "length ps = nat (paths mc_example_params)" by (simp add: filled_def)
  moreover have f: "paths mc_example_params = 50000" "MonteCarloParameters.rate mc_example_params = 1 / 20"
    "MonteCarloParameters.time mc_example_params = 1" by (simp_all add: mc_example_params_def)
  ultimately have l: "int (length (terminal_call_payoff ps)) = paths mc_example_params"
    by (simp add: length_terminal_call_payoff)
  from imp l f have "monte_carlo_price mc_example_params terminal_call_payoff zero_draws stale_memory =
           Inr (exp (- (1 / 20)) * ((\<Sum>i<50000. terminal_call_payoff ps ! i) / 50000))"
    by simp
  with ps l mc_example_valid mc_example_seed show ?thesis by blast
qed

text \<open>
  Claim C7 says that for every valid parameter record the payoff-shape error is raised
  if and only if the payoff returns a number of values different from the path count.
  \<open>two_values_payoff\<close> returns two values for \<open>50000\<close> paths, but for the example with
  seed \<open>-1\<close> the call raises the generator's error before the payoff is called, not the
  payoff-shape error.
\<close>

theorem payoff_shape_negative_seed_counterexample:
  "MonteCarloParameters_validate negative_seed_params = None \<and>
   paths negative_seed_params = 50000 \<and>
   length (two_values_payoff []) = 2 \<and>
   monte_carlo_price negative_seed_params two_values_payoff zero_draws stale_memory
     = Inl (SeedError ''expected non-negative integer'')"
proof -
  have "paths negative_seed_params = 50000"
    by (simp add: negative_seed_params_def mc_example_params_def)
  moreover have "length (two_values_payoff []) = 2" by (simp add: two_values_payoff_def)
  ultimately show ?thesis
    using negative_seed_valid
      monte_carlo_price_refused_seed[OF negative_seed_valid negative_seed_refused]
    by simp
qed

text \<open>
  Claim C7, amended: for valid simulation parameters whose seed is \<^verbatim>\<open>None\<close> or an
  integer that is not negative, \<^verbatim>\<open>monte_carlo_price\<close> raises the payoff-shape error if
  and only if the payoff function returns a number of values different from the path
  count; in that case no price is returned.
\<close>

theorem payoff_shape_error_iff:
  assumes "MonteCarloParameters_validate p = None" and "seed_accepted (seed p)"
  shows "\<exists>ps. simulate_paths p draws mem = Inr ps \<and>
          ((\<exists>msg. monte_carlo_price p payoff_fn draws mem = Inl (PayoffShapeError msg))
             \<longleftrightarrow> int (length (payoff_fn ps)) \<noteq> paths p) \<and>
          (int (length (payoff_fn ps)) \<noteq> paths p \<longrightarrow>
             (\<forall>x. monte_carlo_price p payoff_fn draws mem \<noteq> Inr x))"
proof -
  from simulate_paths_ok[OF assms, of draws mem] obtain ps where
    ps: "simulate_paths p draws mem = Inr ps" by blast
  show ?thesis
  proof (cases "int (length (payoff_fn ps)) = paths p")
    case True
    with ps show ?thesis by (auto simp: monte_carlo_price_cases[OF ps])
  next
    case False
    with ps show ?thesis by (auto simp: monte_carlo_price_cases[OF ps])
  qed
qed

theorem payoff_shape_error_iff_witness:
  "MonteCarloParameters_validate mc_example_params = None \<and>
   seed_accepted (seed mc_example_params) \<and>
   (\<exists>msg. monte_carlo_price mc_example_params two_values_payoff zero_draws stale_memory
            = Inl (PayoffShapeError msg)) \<and>
   \<not> (\<exists>msg. monte_carlo_price mc_example_params terminal_call_payoff zero_draws stale_memory
            = Inl (PayoffShapeError msg))"
proof -
  have f: "paths mc_example_params = 50000" by (simp add: mc_example_params_def)
  from payoff_shape_error_iff[OF mc_example_valid mc_example_seed,
      of zero_draws stale_memory two_values_payoff] f
  have bad: "\<exists>msg. monte_carlo_price mc_example_params two_values_payoff zero_draws stale_memory
            = Inl (PayoffShapeError msg)" by (auto simp: two_values_payoff_def)
  from payoff_shape_error_iff[OF mc_example_valid mc_example_seed,
      of zero_draws stale_memory terminal_call_payoff]
  obtain ps where ps: "simulate_paths mc_example_params zero_draws stale_memory = Inr ps"
    and iff: "(\<exists>msg. monte_carlo_price mc_example_params terminal_call_payoff zero_draws stale_memory
            = Inl (PayoffShapeError msg))
       \<longleftrightarrow> int (length (terminal_call_payoff ps)) \<noteq> paths mc_example_params" by blast
  from simulate_paths_ok[OF mc_example_valid mc_example_seed, of zero_draws stale_memory] ps
  have "length ps = nat (paths mc_example_params)" by (simp add: filled_def)
  then have "int (length (terminal_call_payoff ps)) = paths mc_example_params"
    using f by (simp add: length_terminal_call_payoff)
  with iff have "\<not> (\<exists>msg. monte_carlo_price mc_example_params terminal_call_payoff zero_draws stale_memory
            = Inl (PayoffShapeError msg))" by simp
  with bad mc_example_valid mc_example_seed show ?thesis by blast
qed

end
